theory Spec2Isabelle
  imports Complex_Main
begin

section \<open>JavaScript numbers\<close>

text \<open>
  A JavaScript number is an IEEE 754 double: a finite real, one of the two infinities, or
  NaN. Every arithmetic operation and every \<^verbatim>\<open>Math\<close> function computes the exact real
  result and then rounds it to a double. The rounding function is a parameter \<open>rnd\<close> of
  every operation below, so that one embedding of the source carries two semantics:
  \<^item> \<open>rnd = Fin\<close>: exact real arithmetic (no rounding, no overflow);
  \<^item> \<open>rnd = binary64\<close>: round to nearest, ties to even, on 53 bits, with gradual
    underflow and overflow to infinity.
  The special values follow IEEE 754 in both. Two idealisations remain under \<open>binary64\<close>.
  Zero is unsigned: \<open>-0\<close> is identified with \<open>+0\<close>, so that \<^verbatim>\<open>Math.atan2(-0, x)\<close> for a
  negative \<open>x\<close> is \<open>\<pi>\<close> here, where an engine returns \<open>-\<pi>\<close>. And the \<^verbatim>\<open>Math\<close> functions are
  taken as correctly rounded, where the library of an engine (a port of \<^verbatim>\<open>fdlibm\<close>) can be
  one unit in the last place away. The statements about double arithmetic below are chosen
  so as not to rest on either: the general ones use only what such a library shares with
  the correctly rounded functions (an odd sine, an even cosine, both within \<open>[-1, 1]\<close>, an
  arc tangent within a half turn), and the counterexamples are taken where no negative zero
  arises and where the values of the sine and the cosine are the same in both, or where
  an overflow decides.
\<close>

datatype jsnum = Fin real | PInf | NInf | NaN

fun js_neg :: "jsnum \<Rightarrow> jsnum" where
  "js_neg (Fin a) = Fin (- a)"
| "js_neg PInf = NInf"
| "js_neg NInf = PInf"
| "js_neg NaN = NaN"

fun js_add :: "(real \<Rightarrow> jsnum) \<Rightarrow> jsnum \<Rightarrow> jsnum \<Rightarrow> jsnum" where
  "js_add rnd (Fin a) (Fin b) = rnd (a + b)"
| "js_add rnd (Fin a) PInf = PInf"
| "js_add rnd (Fin a) NInf = NInf"
| "js_add rnd PInf (Fin b) = PInf"
| "js_add rnd PInf PInf = PInf"
| "js_add rnd PInf NInf = NaN"
| "js_add rnd NInf (Fin b) = NInf"
| "js_add rnd NInf PInf = NaN"
| "js_add rnd NInf NInf = NInf"
| "js_add rnd NaN y = NaN"
| "js_add rnd x NaN = NaN"

definition js_sub :: "(real \<Rightarrow> jsnum) \<Rightarrow> jsnum \<Rightarrow> jsnum \<Rightarrow> jsnum" where
  "js_sub rnd x y = js_add rnd x (js_neg y)"

fun js_mul :: "(real \<Rightarrow> jsnum) \<Rightarrow> jsnum \<Rightarrow> jsnum \<Rightarrow> jsnum" where
  "js_mul rnd (Fin a) (Fin b) = rnd (a * b)"
| "js_mul rnd (Fin a) PInf = (if a = 0 then NaN else if 0 < a then PInf else NInf)"
| "js_mul rnd (Fin a) NInf = (if a = 0 then NaN else if 0 < a then NInf else PInf)"
| "js_mul rnd PInf (Fin b) = (if b = 0 then NaN else if 0 < b then PInf else NInf)"
| "js_mul rnd NInf (Fin b) = (if b = 0 then NaN else if 0 < b then NInf else PInf)"
| "js_mul rnd PInf PInf = PInf"
| "js_mul rnd PInf NInf = NInf"
| "js_mul rnd NInf PInf = NInf"
| "js_mul rnd NInf NInf = PInf"
| "js_mul rnd NaN y = NaN"
| "js_mul rnd x NaN = NaN"

fun js_div :: "(real \<Rightarrow> jsnum) \<Rightarrow> jsnum \<Rightarrow> jsnum \<Rightarrow> jsnum" where
  "js_div rnd (Fin a) (Fin b) =
     (if b = 0 then (if a = 0 then NaN else if 0 < a then PInf else NInf)
      else rnd (a / b))"
| "js_div rnd (Fin a) PInf = Fin 0"
| "js_div rnd (Fin a) NInf = Fin 0"
| "js_div rnd PInf (Fin b) = (if 0 \<le> b then PInf else NInf)"
| "js_div rnd NInf (Fin b) = (if 0 \<le> b then NInf else PInf)"
| "js_div rnd PInf PInf = NaN"
| "js_div rnd PInf NInf = NaN"
| "js_div rnd NInf PInf = NaN"
| "js_div rnd NInf NInf = NaN"
| "js_div rnd NaN y = NaN"
| "js_div rnd x NaN = NaN"

text \<open>The remainder operator \<^verbatim>\<open>%\<close>: the result takes the sign of the dividend and is exact.\<close>

definition trunc :: "real \<Rightarrow> int" where
  "trunc q = (if 0 \<le> q then \<lfloor>q\<rfloor> else \<lceil>q\<rceil>)"

fun js_rem :: "jsnum \<Rightarrow> jsnum \<Rightarrow> jsnum" where
  "js_rem (Fin a) (Fin b) = (if b = 0 then NaN else Fin (a - b * of_int (trunc (a / b))))"
| "js_rem (Fin a) PInf = Fin a"
| "js_rem (Fin a) NInf = Fin a"
| "js_rem PInf y = NaN"
| "js_rem NInf y = NaN"
| "js_rem NaN y = NaN"
| "js_rem (Fin a) NaN = NaN"

fun js_sin :: "(real \<Rightarrow> jsnum) \<Rightarrow> jsnum \<Rightarrow> jsnum" where
  "js_sin rnd (Fin a) = rnd (sin a)"
| "js_sin rnd PInf = NaN"
| "js_sin rnd NInf = NaN"
| "js_sin rnd NaN = NaN"

fun js_cos :: "(real \<Rightarrow> jsnum) \<Rightarrow> jsnum \<Rightarrow> jsnum" where
  "js_cos rnd (Fin a) = rnd (cos a)"
| "js_cos rnd PInf = NaN"
| "js_cos rnd NInf = NaN"
| "js_cos rnd NaN = NaN"

text \<open>\<^verbatim>\<open>Math.sqrt\<close> of a negative number and \<^verbatim>\<open>Math.asin\<close> outside \<open>[-1, 1]\<close> are NaN.\<close>

fun js_sqrt :: "(real \<Rightarrow> jsnum) \<Rightarrow> jsnum \<Rightarrow> jsnum" where
  "js_sqrt rnd (Fin a) = (if a < 0 then NaN else rnd (sqrt a))"
| "js_sqrt rnd PInf = PInf"
| "js_sqrt rnd NInf = NaN"
| "js_sqrt rnd NaN = NaN"

fun js_asin :: "(real \<Rightarrow> jsnum) \<Rightarrow> jsnum \<Rightarrow> jsnum" where
  "js_asin rnd (Fin a) = (if a < - 1 \<or> 1 < a then NaN else rnd (arcsin a))"
| "js_asin rnd PInf = NaN"
| "js_asin rnd NInf = NaN"
| "js_asin rnd NaN = NaN"

text \<open>The angle of the point \<open>(x, y)\<close>, in \<open>(-\<pi>, \<pi>]\<close>; \<^verbatim>\<open>Math.atan2(0, 0)\<close> is 0.\<close>

definition arctan2 :: "real \<Rightarrow> real \<Rightarrow> real" where
  "arctan2 y x =
     (if 0 < x then arctan (y / x)
      else if x < 0 then (if 0 \<le> y then arctan (y / x) + pi else arctan (y / x) - pi)
      else if 0 < y then pi / 2
      else if y < 0 then - (pi / 2)
      else 0)"

fun js_atan2 :: "(real \<Rightarrow> jsnum) \<Rightarrow> jsnum \<Rightarrow> jsnum \<Rightarrow> jsnum" where
  "js_atan2 rnd (Fin y) (Fin x) = rnd (arctan2 y x)"
| "js_atan2 rnd (Fin y) PInf = Fin 0"
| "js_atan2 rnd (Fin y) NInf = (if 0 \<le> y then rnd pi else rnd (- pi))"
| "js_atan2 rnd PInf (Fin x) = rnd (pi / 2)"
| "js_atan2 rnd NInf (Fin x) = rnd (- (pi / 2))"
| "js_atan2 rnd PInf PInf = rnd (pi / 4)"
| "js_atan2 rnd PInf NInf = rnd (3 * pi / 4)"
| "js_atan2 rnd NInf PInf = rnd (- (pi / 4))"
| "js_atan2 rnd NInf NInf = rnd (- (3 * pi / 4))"
| "js_atan2 rnd NaN x = NaN"
| "js_atan2 rnd y NaN = NaN"

section \<open>Rounding to a double\<close>

text \<open>
  Rounding a real to the nearest integer, ties to the even one; the unit in the last place
  of a real (the exponent is at least \<open>-1022\<close>, so that small numbers are rounded to
  multiples of \<open>2 powr -1074\<close>); and the rounding of a real to a double: the nearest
  multiple of the unit in the last place, or an infinity when that multiple reaches
  \<open>2 ^ 1024\<close>.
\<close>

definition rhe :: "real \<Rightarrow> int" where
  "rhe q =
     (let f = \<lfloor>q\<rfloor>; d = q - of_int f
      in if d < 1 / 2 then f else if 1 / 2 < d then f + 1 else if even f then f else f + 1)"

definition overflow_threshold :: real where
  "overflow_threshold = 2 ^ 1024"

definition ulp :: "real \<Rightarrow> real" where
  "ulp x = 2 powr of_int (max \<lfloor>log 2 \<bar>x\<bar>\<rfloor> (- 1022) - 52)"

definition binary64 :: "real \<Rightarrow> jsnum" where
  "binary64 x =
     (if x = 0 then Fin 0
      else let y = of_int (rhe (x / ulp x)) * ulp x
           in if overflow_threshold \<le> \<bar>y\<bar> then (if 0 < x then PInf else NInf) else Fin y)"

section \<open>The module \<^verbatim>\<open>great-circle.mjs\<close>\<close>

text \<open>\<^verbatim>\<open>Cesium.Cartographic\<close>: constructed as \<^verbatim>\<open>new Cesium.Cartographic(longitude, latitude, height)\<close>.\<close>

record cartographic =
  longitude :: jsnum
  latitude :: jsnum
  height :: jsnum

definition MEAN_EARTH_RADIUS :: jsnum where
  "MEAN_EARTH_RADIUS = Fin 6371000"

text \<open>
  A parameter with a default value (\<^verbatim>\<open>radius = MEAN_EARTH_RADIUS\<close>) is an option:
  \<open>None\<close> is the omitted argument.
\<close>

definition greatCircleGroundDistance ::
  "(real \<Rightarrow> jsnum) \<Rightarrow> cartographic \<Rightarrow> cartographic \<Rightarrow> jsnum option \<Rightarrow> jsnum" where
  "greatCircleGroundDistance rnd carto1 carto2 radius =
     (let R = (case radius of None \<Rightarrow> MEAN_EARTH_RADIUS | Some r \<Rightarrow> r);
          \<phi>1 = latitude carto1;
          lam1 = longitude carto1;
          \<phi>2 = latitude carto2;
          lam2 = longitude carto2;
          \<Delta>\<phi> = js_sub rnd \<phi>2 \<phi>1;
          \<Delta>lam = js_sub rnd lam2 lam1;
          a = js_add rnd
                (js_mul rnd (js_sin rnd (js_div rnd \<Delta>\<phi> (Fin 2)))
                            (js_sin rnd (js_div rnd \<Delta>\<phi> (Fin 2))))
                (js_mul rnd
                   (js_mul rnd (js_mul rnd (js_cos rnd \<phi>1) (js_cos rnd \<phi>2))
                               (js_sin rnd (js_div rnd \<Delta>lam (Fin 2))))
                   (js_sin rnd (js_div rnd \<Delta>lam (Fin 2))));
          c = js_mul rnd (Fin 2)
                (js_atan2 rnd (js_sqrt rnd a) (js_sqrt rnd (js_sub rnd (Fin 1) a)));
          d = js_mul rnd R c
      in d)"

text \<open>
  Modelled from the spec: \<^verbatim>\<open>Cesium.Math.zeroToTwoPi\<close> belongs to the Cesium library and
  is not part of the module. The specification describes it as the normalisation
  \<^verbatim>\<open>((angle mod 2 pi) + 2 pi) mod 2 pi\<close>, with JavaScript's remainder.
\<close>

definition zeroToTwoPi :: "(real \<Rightarrow> jsnum) \<Rightarrow> jsnum \<Rightarrow> jsnum" where
  "zeroToTwoPi rnd angle =
     js_rem (js_add rnd (js_rem angle (rnd (2 * pi))) (rnd (2 * pi))) (rnd (2 * pi))"

definition greatCircleInitialBearing ::
  "(real \<Rightarrow> jsnum) \<Rightarrow> cartographic \<Rightarrow> cartographic \<Rightarrow> jsnum" where
  "greatCircleInitialBearing rnd carto1 carto2 =
     (let \<phi>1 = latitude carto1;
          \<phi>2 = latitude carto2;
          \<Delta>lam = js_sub rnd (longitude carto2) (longitude carto1);
          x = js_sub rnd
                (js_mul rnd (js_cos rnd \<phi>1) (js_sin rnd \<phi>2))
                (js_mul rnd (js_mul rnd (js_sin rnd \<phi>1) (js_cos rnd \<phi>2)) (js_cos rnd \<Delta>lam));
          y = js_mul rnd (js_sin rnd \<Delta>lam) (js_cos rnd \<phi>2);
          \<theta> = js_atan2 rnd y x
      in zeroToTwoPi rnd \<theta>)"

definition greatCircleDestination ::
  "(real \<Rightarrow> jsnum) \<Rightarrow> cartographic \<Rightarrow> jsnum \<Rightarrow> jsnum \<Rightarrow> jsnum option \<Rightarrow> cartographic" where
  "greatCircleDestination rnd carto distance initialBearing radius =
     (let r = (case radius of None \<Rightarrow> MEAN_EARTH_RADIUS | Some r \<Rightarrow> r);
          \<delta> = js_div rnd distance r;
          \<theta> = initialBearing;
          \<phi>1 = latitude carto;
          lam1 = longitude carto;
          sin\<phi>2 = js_add rnd
                    (js_mul rnd (js_sin rnd \<phi>1) (js_cos rnd \<delta>))
                    (js_mul rnd (js_mul rnd (js_cos rnd \<phi>1) (js_sin rnd \<delta>)) (js_cos rnd \<theta>));
          \<phi>2 = js_asin rnd sin\<phi>2;
          y = js_mul rnd (js_mul rnd (js_sin rnd \<theta>) (js_sin rnd \<delta>)) (js_cos rnd \<phi>1);
          x = js_sub rnd (js_cos rnd \<delta>) (js_mul rnd (js_sin rnd \<phi>1) sin\<phi>2);
          lam2 = js_add rnd lam1 (js_atan2 rnd y x);
          lat = \<phi>2;
          lon = lam2
      in \<lparr>longitude = lon, latitude = lat, height = Fin 0\<rparr>)"

section \<open>Notions used in the proofs\<close>

text \<open>
  A rounding function is odd when it commutes with negation, and idempotent when it leaves
  its own finite results unchanged. Exact arithmetic and the rounding to a double are both.
\<close>

definition odd_rounding :: "(real \<Rightarrow> jsnum) \<Rightarrow> bool" where
  "odd_rounding rnd = (\<forall>x. rnd (- x) = js_neg (rnd x))"

definition idempotent_rounding :: "(real \<Rightarrow> jsnum) \<Rightarrow> bool" where
  "idempotent_rounding rnd = (\<forall>x. case rnd x of Fin y \<Rightarrow> rnd y = Fin y | _ \<Rightarrow> True)"

text \<open>The value of the intermediate \<^verbatim>\<open>a\<close> of the distance in exact arithmetic.\<close>

definition haversine :: "real \<Rightarrow> real \<Rightarrow> real \<Rightarrow> real \<Rightarrow> real" where
  "haversine \<phi>1 lam1 \<phi>2 lam2 =
     sin ((\<phi>2 - \<phi>1) / 2) * sin ((\<phi>2 - \<phi>1) / 2)
     + cos \<phi>1 * cos \<phi>2 * sin ((lam2 - lam1) / 2) * sin ((lam2 - lam1) / 2)"

text \<open>
  The constant \<^verbatim>\<open>Math.PI\<close>, 3.141592653589793: the double nearest to \<open>\<pi>\<close>, a little
  below it.
\<close>

definition Math_PI :: real where
  "Math_PI = 884279719003555 / 281474976710656"



text \<open>
  Polynomials in Horner form, and the first fifteen coefficients of the series of the sine
  (divided by its argument) and of the cosine, in the square of the argument. They serve
  to enclose the sine and the cosine of a given double between two rationals.
\<close>

fun horner :: "real list \<Rightarrow> real \<Rightarrow> real" where
  "horner [] t = 0"
| "horner (c # cs) t = c + t * horner cs t"

definition sin_coeffs :: "real list" where
  "sin_coeffs = [
     1, - (1 / 6), 1 / 120, - (1 / 5040), 1 / 362880, - (1 / 39916800), 1 / 6227020800,
     - (1 / 1307674368000), 1 / 355687428096000, - (1 / 121645100408832000),
     1 / 51090942171709440000, - (1 / 25852016738884976640000),
     1 / 15511210043330985984000000, - (1 / 10888869450418352160768000000),
     1 / 8841761993739701954543616000000]"

definition cos_coeffs :: "real list" where
  "cos_coeffs = [
     1, - (1 / 2), 1 / 24, - (1 / 720), 1 / 40320, - (1 / 3628800), 1 / 479001600,
     - (1 / 87178291200), 1 / 20922789888000, - (1 / 6402373705728000),
     1 / 2432902008176640000, - (1 / 1124000727777607680000), 1 / 620448401733239439360000,
     - (1 / 403291461126605635584000000), 1 / 304888344611713860501504000000]"

section \<open>Special values and signs\<close>

lemma js_add_NaN_right [simp]: "js_add rnd x NaN = NaN"
  by (cases x) simp_all

lemma js_mul_NaN_right [simp]: "js_mul rnd x NaN = NaN"
  by (cases x) simp_all

lemma js_atan2_NaN_right [simp]: "js_atan2 rnd y NaN = NaN"
  by (cases y) simp_all

lemma js_mul_commute: "js_mul rnd x y = js_mul rnd y x"
  by (cases x; cases y) (simp_all add: mult.commute)

lemma js_mul_neg_neg: "js_mul rnd (js_neg x) (js_neg y) = js_mul rnd x y"
  by (cases x; cases y) (simp_all add: not_less order_less_le)

lemma js_mul_neg_right:
  "odd_rounding rnd \<Longrightarrow> js_mul rnd x (js_neg y) = js_neg (js_mul rnd x y)"
  by (cases x; cases y) (simp_all add: odd_rounding_def not_less order_less_le)


lemma js_div_neg_left:
  "odd_rounding rnd \<Longrightarrow> js_div rnd (js_neg x) y = js_neg (js_div rnd x y)"
  by (cases x; cases y) (simp_all add: odd_rounding_def not_less order_less_le)

lemma js_sub_swap:
  assumes "odd_rounding rnd"
  shows "js_sub rnd y x = js_neg (js_sub rnd x y)"
proof (cases x; cases y)
  fix a b assume "x = Fin a" "y = Fin b"
  moreover have "b + - a = - (a + - b)"
    by simp
  then have "rnd (b + - a) = js_neg (rnd (a + - b))"
    using assms by (simp only: odd_rounding_def)
  ultimately show ?thesis by (simp add: js_sub_def)
qed (simp_all add: js_sub_def)

lemma js_sin_neg:
  assumes "odd_rounding rnd"
  shows "js_sin rnd (js_neg x) = js_neg (js_sin rnd x)"
  using assms by (cases x) (simp_all add: odd_rounding_def)


lemma js_sin_half_swap:
  assumes "odd_rounding rnd"
  shows "js_sin rnd (js_div rnd (js_sub rnd y x) (Fin 2))
       = js_neg (js_sin rnd (js_div rnd (js_sub rnd x y) (Fin 2)))"
  by (simp add: js_sub_swap [OF assms, of y x] js_div_neg_left [OF assms] js_sin_neg [OF assms])

lemma distance_swap:
  assumes "odd_rounding rnd"
  shows "greatCircleGroundDistance rnd p1 p2 radius = greatCircleGroundDistance rnd p2 p1 radius"
proof -
  define s\<phi> where "s\<phi> = js_sin rnd (js_div rnd (js_sub rnd (latitude p2) (latitude p1)) (Fin 2))"
  define sl where "sl = js_sin rnd (js_div rnd (js_sub rnd (longitude p2) (longitude p1)) (Fin 2))"
  have lat: "js_sin rnd (js_div rnd (js_sub rnd (latitude p1) (latitude p2)) (Fin 2)) = js_neg s\<phi>"
    unfolding s\<phi>_def by (rule js_sin_half_swap [OF assms])
  have lon: "js_sin rnd (js_div rnd (js_sub rnd (longitude p1) (longitude p2)) (Fin 2)) = js_neg sl"
    unfolding sl_def by (rule js_sin_half_swap [OF assms])
  have cs: "js_mul rnd (js_cos rnd (latitude p2)) (js_cos rnd (latitude p1))
          = js_mul rnd (js_cos rnd (latitude p1)) (js_cos rnd (latitude p2))"
    by (rule js_mul_commute)
  show ?thesis
    unfolding greatCircleGroundDistance_def Let_def lat lon cs
    by (simp add: js_mul_neg_neg js_mul_neg_right [OF assms] s\<phi>_def sl_def)
qed

lemma js_mul_one_rounded:
  assumes "idempotent_rounding rnd"
  shows "js_mul rnd (Fin 1) (js_mul rnd a b) = js_mul rnd a b"
proof -
  have key: "js_mul rnd (Fin 1) (rnd z) = rnd z" for z
  proof (cases "rnd z")
    case (Fin y)
    with assms have "rnd y = Fin y"
      by (auto simp: idempotent_rounding_def split: jsnum.splits dest: spec [of _ z])
    with Fin show ?thesis
      by simp
  qed simp_all
  show ?thesis
    by (cases a; cases b) (simp_all add: key)
qed

lemma linear_in_radius_rounded:
  assumes "idempotent_rounding rnd"
  shows "greatCircleGroundDistance rnd p1 p2 (Some r)
       = js_mul rnd r (greatCircleGroundDistance rnd p1 p2 (Some (Fin 1)))"
  unfolding greatCircleGroundDistance_def Let_def
  by (simp add: js_mul_one_rounded [OF assms])

lemma odd_rounding_Fin: "odd_rounding Fin"
  by (simp add: odd_rounding_def)

lemma idempotent_rounding_Fin: "idempotent_rounding Fin"
  by (simp add: idempotent_rounding_def)

section \<open>Properties of the rounding to a double\<close>

lemma rhe_near:
  assumes "\<bar>q - of_int m\<bar> < 1 / 2"
  shows "rhe q = m"
proof (cases "of_int m \<le> q")
  case True
  with assms have "\<lfloor>q\<rfloor> = m"
    by (intro floor_unique) (simp_all add: abs_less_iff)
  with assms True show ?thesis
    by (simp add: rhe_def Let_def abs_less_iff)
next
  case False
  with assms have f: "\<lfloor>q\<rfloor> = m - 1"
    by (intro floor_unique) (simp_all add: abs_less_iff)
  with assms False show ?thesis
    by (simp add: rhe_def Let_def abs_less_iff)
qed

lemma rhe_of_int: "rhe (of_int k) = k"
  by (simp add: rhe_def)

lemma rhe_abs_le:
  assumes "\<bar>q\<bar> < of_int K"
  shows "\<bar>rhe q\<bar> \<le> K"
proof -
  have "q < of_int K" "of_int (- K) \<le> q"
    using assms by simp_all
  then have "\<lfloor>q\<rfloor> < K" "- K \<le> \<lfloor>q\<rfloor>"
    by (simp_all only: floor_less_iff le_floor_iff)
  moreover have "rhe q = \<lfloor>q\<rfloor> \<or> rhe q = \<lfloor>q\<rfloor> + 1"
    by (simp add: rhe_def Let_def)
  ultimately show ?thesis
    by auto
qed

lemma rhe_minus: "rhe (- q) = - rhe q"
proof (cases "q = of_int \<lfloor>q\<rfloor>")
  case True
  then have "\<lfloor>- q\<rfloor> = - \<lfloor>q\<rfloor>"
    by (metis floor_of_int of_int_minus)
  with True show ?thesis
    by (simp add: rhe_def Let_def)
next
  case False
  then have f: "\<lfloor>- q\<rfloor> = - \<lfloor>q\<rfloor> - 1"
    by (simp add: floor_minus ceiling_altdef)
  define d where "d = q - of_int \<lfloor>q\<rfloor>"
  have d: "- q - of_int (- \<lfloor>q\<rfloor> - 1) = 1 - d"
    by (simp add: d_def)
  show ?thesis
    unfolding rhe_def Let_def f d d_def [symmetric]
    by (auto simp: not_less)
qed

text \<open>
  The double nearest to \<open>x\<close>, from the exponent \<open>e\<close> of \<open>x\<close> and the nearest multiple
  \<open>m\<close> of the unit in the last place.
\<close>

lemma binary64_eval:
  fixes e m :: int
  assumes e: "- 1022 \<le> e" "e \<le> 1022"
    and u: "u = 2 powr of_int (e - 52)"
    and x: "2 ^ 52 * u \<le> \<bar>x\<bar>" "\<bar>x\<bar> < 2 ^ 53 * u"
    and m: "\<bar>x / u - of_int m\<bar> < 1 / 2"
  shows "binary64 x = Fin (of_int m * u)"
proof -
  have u0: "0 < u"
    by (simp add: u)
  have p: "2 powr of_int e = 2 ^ 52 * u" "2 powr of_int (e + 1) = 2 ^ 53 * u"
    unfolding u by (simp_all add: powr_diff powr_add)
  have x0: "x \<noteq> 0"
    using x(1) u0 by auto
  have A: "2 powr real_of_int e \<le> \<bar>x\<bar>"
    using x(1) by (simp only: p(1))
  have B: "\<bar>x\<bar> < 2 powr real_of_int (e + 1)"
    using x(2) by (simp only: p(2))
  have "\<lfloor>log 2 \<bar>x\<bar>\<rfloor> = e"
    using floor_log_eq_powr_iff [of "\<bar>x\<bar>" 2 e] x0 A B by simp
  then have "max \<lfloor>log 2 \<bar>x\<bar>\<rfloor> (- 1022) = e"
    using e by simp
  then have e': "ulp x = u"
    by (simp only: ulp_def u)
  have r: "rhe (x / u) = m"
    using m by (rule rhe_near)
  have "\<bar>x / u\<bar> < 2 ^ 53"
    using x(2) u0 by (simp add: pos_divide_less_eq)
  with m have "\<bar>real_of_int m\<bar> < 2 ^ 53 + 1"
    by linarith
  then have "real_of_int \<bar>m\<bar> < real_of_int (2 ^ 53 + 1)"
    by simp
  then have "\<bar>m\<bar> < 2 ^ 53 + 1"
    by (simp only: of_int_less_iff)
  then have "\<bar>m\<bar> \<le> 2 ^ 53"
    by simp
  then have "real_of_int \<bar>m\<bar> \<le> real_of_int (2 ^ 53)"
    by (simp only: of_int_le_iff)
  then have "\<bar>real_of_int m\<bar> \<le> 2 ^ 53"
    by simp
  then have "\<bar>real_of_int m * u\<bar> \<le> 2 ^ 53 * u"
    using u0 by (simp add: abs_mult)
  also have "\<dots> = 2 powr of_int (e + 1)"
    by (simp only: p(2))
  also have "\<dots> \<le> 2 powr 1023"
    using e by (intro powr_mono) simp_all
  also have "\<dots> < overflow_threshold"
    by (simp add: overflow_threshold_def)
  finally have big: "\<not> overflow_threshold \<le> \<bar>real_of_int m * u\<bar>"
    by (simp only: not_le)
  show ?thesis
    unfolding binary64_def Let_def e' r
    by (simp only: x0 big if_False)
qed

text \<open>For instance, the double nearest to one tenth.\<close>

lemma binary64_tenth: "binary64 (1 / 10) = Fin (3602879701896397 / 36028797018963968)"
proof -
  have "binary64 (1 / 10) = Fin (of_int 7205759403792794 * (1 / 72057594037927936))"
    by (rule binary64_eval [where e = "- 4"]) (simp_all add: powr_neg_numeral)
  then show ?thesis
    by simp
qed

lemma binary64_enclosed:
  fixes e m :: int
  assumes "- 1022 \<le> e" "e \<le> 1022" "u = 2 powr of_int (e - 52)"
    and "L \<le> x \<and> x \<le> U"
    and "2 ^ 52 * u \<le> L" "U < 2 ^ 53 * u"
    and "(of_int m - 1 / 2) * u < L" "U < (of_int m + 1 / 2) * u"
  shows "binary64 x = Fin (of_int m * u)"
proof (rule binary64_eval [OF assms(1-3)])
  have u0: "0 < u"
    by (simp add: assms(3))
  then have "0 < 2 ^ 52 * u"
    by simp
  then have x0: "0 < x"
    using assms(4,5) by linarith
  show "2 ^ 52 * u \<le> \<bar>x\<bar>" "\<bar>x\<bar> < 2 ^ 53 * u"
    using x0 assms(4-6) by simp_all
  have "(of_int m - 1 / 2) * u < x" "x < (of_int m + 1 / 2) * u"
    using assms(4,7,8) by simp_all
  then have "of_int m - 1 / 2 < x / u" "x / u < of_int m + 1 / 2"
    using u0 by (simp_all add: pos_less_divide_eq pos_divide_less_eq)
  then show "\<bar>x / u - of_int m\<bar> < 1 / 2"
    unfolding abs_less_iff by linarith
qed

lemma binary64_one: "binary64 1 = Fin 1"
proof -
  have "binary64 1 = Fin (of_int 4503599627370496 * (1 / 4503599627370496))"
    by (rule binary64_eval [where e = 0]) (simp_all add: powr_neg_numeral)
  then show ?thesis
    by simp
qed

lemma binary64_near_one:
  assumes "1 - 1 / 2 ^ 54 < x" "x \<le> 1"
  shows "binary64 x = Fin 1"
proof (cases "x = 1")
  case True
  then show ?thesis
    by (simp add: binary64_one)
next
  case False
  with assms have x: "x < 1" "1 - 1 / 2 ^ 54 < x"
    by simp_all
  have "binary64 x = Fin (of_int 9007199254740992 * (1 / 9007199254740992))"
  proof (rule binary64_eval [where e = "- 1"])
    show "\<bar>x / (1 / 9007199254740992) - real_of_int 9007199254740992\<bar> < 1 / 2"
      using x by (simp add: abs_less_iff)
    show "2 ^ 52 * (1 / 9007199254740992) \<le> \<bar>x\<bar>" "\<bar>x\<bar> < 2 ^ 53 * (1 / 9007199254740992)"
      using x by simp_all
  qed (simp_all add: powr_neg_numeral)
  then show ?thesis
    by simp
qed

lemma ulp_minus: "ulp (- x) = ulp x"
  by (simp add: ulp_def)

lemma binary64_odd: "binary64 (- x) = js_neg (binary64 x)"
proof (cases "x = 0")
  case True
  then show ?thesis
    by (simp add: binary64_def)
next
  case False
  define m where "m = rhe (x / ulp x)"
  have "rhe (- x / ulp x) = - m"
    unfolding m_def using rhe_minus [of "x / ulp x"] by simp
  then have b: "binary64 (- x) =
      (if overflow_threshold \<le> \<bar>of_int m * ulp x\<bar> then (if 0 < - x then PInf else NInf)
       else Fin (- (of_int m * ulp x)))"
    using False by (simp add: binary64_def Let_def ulp_minus)
  have a: "binary64 x =
      (if overflow_threshold \<le> \<bar>of_int m * ulp x\<bar> then (if 0 < x then PInf else NInf)
       else Fin (of_int m * ulp x))"
    using False by (simp add: binary64_def Let_def m_def)
  show ?thesis
    unfolding a b using False by simp
qed

lemma odd_rounding_binary64: "odd_rounding binary64"
  by (simp add: odd_rounding_def binary64_odd)

text \<open>A multiple of a power of two with fewer than 54 bits is a double, and rounds to itself.\<close>

lemma binary64_representable:
  fixes k j :: int
  assumes j: "- 1074 \<le> j" and k: "\<bar>k\<bar> < 2 ^ 53"
    and y: "\<bar>of_int k * 2 powr of_int j\<bar> < overflow_threshold"
  shows "binary64 (of_int k * 2 powr of_int j) = Fin (of_int k * 2 powr of_int j)"
proof (cases "k = 0")
  case True
  then show ?thesis
    by (simp add: binary64_def)
next
  case False
  define y :: real where "y = of_int k * 2 powr of_int j"
  have y0: "y \<noteq> 0"
    using False by (simp add: y_def)
  have "real_of_int \<bar>k\<bar> < real_of_int (2 ^ 53)"
    using k by (simp only: of_int_less_iff)
  then have "\<bar>real_of_int k\<bar> < 2 powr 53"
    by simp
  then have "\<bar>y\<bar> < 2 powr 53 * 2 powr of_int j"
    by (simp add: y_def abs_mult)
  then have "\<bar>y\<bar> < 2 powr of_int (j + 53)"
    by (simp add: powr_add mult.commute)
  then have "log 2 \<bar>y\<bar> < of_int (j + 53)"
    using y0 by (simp add: log_less_iff)
  then have "\<lfloor>log 2 \<bar>y\<bar>\<rfloor> < j + 53"
    by (simp only: floor_less_iff)
  then have e: "max \<lfloor>log 2 \<bar>y\<bar>\<rfloor> (- 1022) - 52 \<le> j"
    using j by simp
  define n where "n = nat (j - (max \<lfloor>log 2 \<bar>y\<bar>\<rfloor> (- 1022) - 52))"
  have jn: "of_int j = of_int (max \<lfloor>log 2 \<bar>y\<bar>\<rfloor> (- 1022) - 52) + real n"
    using e by (simp add: n_def)
  have "2 powr of_int j = 2 ^ n * ulp y"
    unfolding jn ulp_def by (simp add: powr_add powr_realpow mult.commute)
  then have yu: "y = of_int (k * 2 ^ n) * ulp y"
    by (simp add: y_def)
  have "ulp y \<noteq> 0"
    by (simp add: ulp_def)
  then have "y / ulp y = of_int (k * 2 ^ n)"
    using yu by (metis nonzero_mult_div_cancel_right)
  then have "of_int (rhe (y / ulp y)) * ulp y = y"
    using yu by (simp only: rhe_of_int)
  then show ?thesis
    using y0 y unfolding y_def [symmetric] by (simp add: binary64_def Let_def)
qed

lemma abs_less_powr_ulp:
  assumes "x \<noteq> 0"
  shows "\<bar>x / ulp x\<bar> < 2 ^ 53"
proof -
  define e where "e = max \<lfloor>log 2 \<bar>x\<bar>\<rfloor> (- 1022)"
  have "\<lfloor>log 2 \<bar>x\<bar>\<rfloor> < e + 1"
    by (simp add: e_def)
  then have "log 2 \<bar>x\<bar> < of_int (e + 1)"
    by (simp only: floor_less_iff)
  then have "\<bar>x\<bar> < 2 powr of_int (e + 1)"
    using assms by (simp add: log_less_iff)
  also have "of_int (e + 1) = 53 + real_of_int (e - 52)"
    by simp
  also have "2 powr (53 + real_of_int (e - 52)) = 2 powr 53 * 2 powr of_int (e - 52)"
    by (simp only: powr_add)
  also have "\<dots> = 2 ^ 53 * ulp x"
    by (simp add: ulp_def e_def)
  finally have "\<bar>x\<bar> < 2 ^ 53 * ulp x" .
  moreover have "0 < ulp x"
    by (simp add: ulp_def)
  ultimately show ?thesis
    by (simp add: pos_divide_less_eq)
qed

lemma binary64_idem:
  assumes "binary64 x = Fin y"
  shows "binary64 y = Fin y"
proof (cases "x = 0")
  case True
  with assms show ?thesis
    by (auto simp: binary64_def)
next
  case False
  define j where "j = max \<lfloor>log 2 \<bar>x\<bar>\<rfloor> (- 1022) - 52"
  define m where "m = rhe (x / ulp x)"
  have u: "ulp x = 2 powr of_int j"
    by (simp add: ulp_def j_def)
  have j: "- 1074 \<le> j"
    by (simp add: j_def)
  have y: "y = of_int m * 2 powr of_int j" and small: "\<bar>y\<bar> < overflow_threshold"
    using assms False by (auto simp: binary64_def Let_def m_def u split: if_splits)
  have "\<bar>x / ulp x\<bar> < of_int (2 ^ 53)"
    using abs_less_powr_ulp [OF False] by simp
  then have m: "\<bar>m\<bar> \<le> 2 ^ 53"
    unfolding m_def by (rule rhe_abs_le)
  show ?thesis
  proof (cases "\<bar>m\<bar> < 2 ^ 53")
    case True
    show ?thesis
      unfolding y using j True small [unfolded y] by (rule binary64_representable)
  next
    case False
    with m have "\<bar>m\<bar> = 2 ^ 53"
      by simp
    then have "m = 2 ^ 53 \<or> m = - (2 ^ 53)"
      by (simp add: abs_if split: if_splits)
    then obtain h :: int where h: "m = 2 * h" "\<bar>h\<bar> < 2 ^ 53"
    proof
      assume "m = 2 ^ 53"
      then have "m = 2 * 2 ^ 52" "\<bar>2 ^ 52 :: int\<bar> < 2 ^ 53"
        by simp_all
      then show ?thesis
        by (rule that)
    next
      assume "m = - (2 ^ 53)"
      then have "m = 2 * (- (2 ^ 52))" "\<bar>- (2 ^ 52) :: int\<bar> < 2 ^ 53"
        by simp_all
      then show ?thesis
        by (rule that)
    qed
    have "real_of_int m * 2 powr of_int j = real_of_int h * (2 powr 1 * 2 powr of_int j)"
      by (simp add: h(1))
    also have "2 powr 1 * 2 powr real_of_int j = 2 powr (1 + real_of_int j)"
      by (simp only: powr_add)
    also have "1 + real_of_int j = real_of_int (j + 1)"
      by simp
    finally have y': "y = of_int h * 2 powr of_int (j + 1)"
      unfolding y .
    have "- 1074 \<le> j + 1"
      using j by simp
    then show ?thesis
      unfolding y' using h(2) small [unfolded y'] by (rule binary64_representable)
  qed
qed

lemma idempotent_rounding_binary64: "idempotent_rounding binary64"
  by (auto simp: idempotent_rounding_def binary64_idem split: jsnum.splits)

lemma rhe_le_int:
  assumes "q \<le> of_int K"
  shows "rhe q \<le> K"
proof (cases "q = of_int K")
  case True
  then show ?thesis
    by (simp add: rhe_of_int)
next
  case False
  with assms have "q < of_int K"
    by simp
  then have "\<lfloor>q\<rfloor> < K"
    by (simp only: floor_less_iff)
  moreover have "rhe q = \<lfloor>q\<rfloor> \<or> rhe q = \<lfloor>q\<rfloor> + 1"
    by (simp add: rhe_def Let_def)
  ultimately show ?thesis
    by auto
qed

lemma rhe_ge_int:
  assumes "of_int K \<le> q"
  shows "K \<le> rhe q"
proof -
  have "K \<le> \<lfloor>q\<rfloor>"
    using assms by (simp only: le_floor_iff)
  moreover have "rhe q = \<lfloor>q\<rfloor> \<or> rhe q = \<lfloor>q\<rfloor> + 1"
    by (simp add: rhe_def Let_def)
  ultimately show ?thesis
    by auto
qed

lemma ulp_pos: "0 < ulp x"
  by (simp add: ulp_def)

lemma ulp_mono:
  assumes "x \<noteq> 0" "\<bar>x\<bar> \<le> \<bar>y\<bar>"
  shows "\<exists>n :: nat. ulp y = 2 ^ n * ulp x"
proof -
  define ex where "ex = max \<lfloor>log 2 \<bar>x\<bar>\<rfloor> (- 1022)"
  define ey where "ey = max \<lfloor>log 2 \<bar>y\<bar>\<rfloor> (- 1022)"
  have "log 2 \<bar>x\<bar> \<le> log 2 \<bar>y\<bar>"
    using assms by simp
  then have "\<lfloor>log 2 \<bar>x\<bar>\<rfloor> \<le> \<lfloor>log 2 \<bar>y\<bar>\<rfloor>"
    by (rule floor_mono)
  then have le: "ex \<le> ey"
    by (simp add: ex_def ey_def)
  define n where "n = nat (ey - ex)"
  have "real_of_int (ey - 52) = real n + real_of_int (ex - 52)"
    using le by (simp add: n_def)
  then have "2 powr real_of_int (ey - 52) = 2 powr real n * 2 powr real_of_int (ex - 52)"
    by (simp only: powr_add)
  then have "ulp y = 2 ^ n * ulp x"
    by (simp add: ulp_def ex_def ey_def powr_realpow)
  then show ?thesis ..
qed

lemma double_multiple:
  assumes "binary64 B = Fin B"
  shows "\<exists>k :: int. B = of_int k * ulp B" and "\<bar>B\<bar> < overflow_threshold"
proof -
  show "\<exists>k :: int. B = of_int k * ulp B"
  proof (cases "B = 0")
    case True
    then have "B = of_int 0 * ulp B"
      by simp
    then show ?thesis ..
  next
    case False
    with assms have "B = of_int (rhe (B / ulp B)) * ulp B"
      by (simp add: binary64_def Let_def split: if_splits)
    then show ?thesis ..
  qed
  show "\<bar>B\<bar> < overflow_threshold"
  proof (cases "B = 0")
    case True
    then show ?thesis
      by (simp add: overflow_threshold_def)
  next
    case False
    with assms show ?thesis
      by (auto simp: binary64_def Let_def split: if_splits)
  qed
qed

text \<open>Rounding is monotone against a double: it does not cross one.\<close>

lemma binary64_upper:
  assumes B: "binary64 B = Fin B" and z: "0 \<le> z" "z \<le> B"
  shows "\<exists>y. binary64 z = Fin y \<and> 0 \<le> y \<and> y \<le> B"
proof (cases "z = 0")
  case True
  with z show ?thesis
    by (simp add: binary64_def)
next
  case False
  with z have z0: "0 < z" and "\<bar>z\<bar> \<le> \<bar>B\<bar>"
    by simp_all
  with False obtain n :: nat where n: "ulp B = 2 ^ n * ulp z"
    using ulp_mono by blast
  obtain k :: int where k: "B = of_int k * ulp B"
    using double_multiple(1) [OF B] by blast
  have u: "0 < ulp z"
    by (rule ulp_pos)
  define m where "m = rhe (z / ulp z)"
  have Bz: "B = of_int (k * 2 ^ n) * ulp z"
    using k n by simp
  then have "z / ulp z \<le> of_int (k * 2 ^ n)"
    using z(2) u by (simp add: pos_divide_le_eq)
  then have "m \<le> k * 2 ^ n"
    unfolding m_def by (rule rhe_le_int)
  then have "real_of_int m \<le> real_of_int (k * 2 ^ n)"
    by (simp only: of_int_le_iff)
  then have "of_int m * ulp z \<le> of_int (k * 2 ^ n) * ulp z"
    using u by (simp only: mult_le_cancel_right_pos)
  then have hi: "of_int m * ulp z \<le> B"
    by (simp only: Bz [symmetric])
  have "of_int 0 \<le> z / ulp z"
    using z0 u by simp
  then have "0 \<le> m"
    unfolding m_def by (rule rhe_ge_int)
  then have lo: "0 \<le> of_int m * ulp z"
    using u by simp
  have "\<bar>of_int m * ulp z\<bar> \<le> \<bar>B\<bar>"
    using lo hi by simp
  also have "\<dots> < overflow_threshold"
    by (rule double_multiple(2) [OF B])
  finally have "\<not> overflow_threshold \<le> \<bar>of_int m * ulp z\<bar>"
    by simp
  then have "binary64 z = Fin (of_int m * ulp z)"
    using False by (simp add: binary64_def Let_def m_def)
  with lo hi show ?thesis
    by blast
qed

lemma binary64_abs_bound:
  assumes B: "binary64 B = Fin B" and z: "\<bar>z\<bar> \<le> B"
  shows "\<exists>y. binary64 z = Fin y \<and> \<bar>y\<bar> \<le> B"
proof (cases "0 \<le> z")
  case True
  with z have "z \<le> B"
    by simp
  with B True obtain y where "binary64 z = Fin y" "0 \<le> y" "y \<le> B"
    using binary64_upper by blast
  then have "binary64 z = Fin y \<and> \<bar>y\<bar> \<le> B"
    by simp
  then show ?thesis ..
next
  case False
  with z have "0 \<le> - z" "- z \<le> B"
    by simp_all
  with B obtain y where y: "binary64 (- z) = Fin y" "0 \<le> y" "y \<le> B"
    using binary64_upper by blast
  have "binary64 z = js_neg (binary64 (- z))"
    using binary64_odd [of "- z"] by simp
  with y have "binary64 z = Fin (- y) \<and> \<bar>- y\<bar> \<le> B"
    by simp
  then show ?thesis ..
qed



section \<open>Exact arithmetic\<close>

lemma sin_sq_bounds: "0 \<le> sin x * sin x" "sin x * sin x \<le> 1" for x :: real
proof -
  have "sin x * sin x + cos x * cos x = 1"
    using sin_cos_squared_add [of x] by (simp add: power2_eq_square)
  moreover have "0 \<le> cos x * cos x"
    by simp
  ultimately show "sin x * sin x \<le> 1"
    by linarith
qed simp

lemma cos_sq_bound: "cos x * cos x \<le> 1" for x :: real
proof -
  have "sin x * sin x + cos x * cos x = 1"
    using sin_cos_squared_add [of x] by (simp add: power2_eq_square)
  moreover have "0 \<le> sin x * sin x"
    by simp
  ultimately show ?thesis
    by linarith
qed



lemma cos_cos_bounds:
  fixes p q :: real
  shows "- (sin ((q - p) / 2) * sin ((q - p) / 2)) \<le> cos p * cos q"
    and "cos p * cos q \<le> 1 - sin ((q - p) / 2) * sin ((q - p) / 2)"
proof -
  define w where "w = (q - p) / 2"
  have w: "q - p = 2 * w"
    by (simp add: w_def)
  have "cos (q - p) = 1 - 2 * (sin w)\<^sup>2"
    unfolding w by (rule cos_double_sin)
  define S where "S = sin w * sin w"
  have d: "cos (q - p) = 1 - 2 * S"
    using \<open>cos (q - p) = 1 - 2 * (sin w)\<^sup>2\<close> by (simp add: S_def power2_eq_square)
  have e: "cos p * cos q = (cos (q - p) + cos (q + p)) / 2"
    using cos_times_cos [of q p] by (simp add: mult.commute)
  have c: "- 1 \<le> cos (q + p)" "cos (q + p) \<le> 1"
    by (rule cos_ge_minus_one, rule cos_le_one)
  show "- (sin ((q - p) / 2) * sin ((q - p) / 2)) \<le> cos p * cos q"
    unfolding e d w_def [symmetric] S_def [symmetric] using c by argo
  show "cos p * cos q \<le> 1 - sin ((q - p) / 2) * sin ((q - p) / 2)"
    unfolding e d w_def [symmetric] S_def [symmetric] using c by argo
qed

text \<open>The intermediate \<^verbatim>\<open>a\<close> lies between 0 and 1.\<close>

lemma haversine_bounds: "0 \<le> haversine \<phi>1 lam1 \<phi>2 lam2" "haversine \<phi>1 lam1 \<phi>2 lam2 \<le> 1"
proof -
  define S where "S = sin ((\<phi>2 - \<phi>1) / 2) * sin ((\<phi>2 - \<phi>1) / 2)"
  define T where "T = sin ((lam2 - lam1) / 2) * sin ((lam2 - lam1) / 2)"
  define P where "P = cos \<phi>1 * cos \<phi>2"
  have a: "haversine \<phi>1 lam1 \<phi>2 lam2 = S + P * T"
    by (simp add: haversine_def S_def T_def P_def mult.assoc)
  have S: "0 \<le> S" "S \<le> 1" and T: "0 \<le> T" "T \<le> 1"
    by (simp_all add: S_def T_def sin_sq_bounds)
  have P: "- S \<le> P" "P \<le> 1 - S"
    using cos_cos_bounds [where p = \<phi>1 and q = \<phi>2] by (simp_all add: S_def P_def)
  have "0 \<le> S * (1 - T)" "0 \<le> (P + S) * T"
    using S T P by simp_all
  then have "0 \<le> S * (1 - T) + (P + S) * T"
    by linarith
  then show "0 \<le> haversine \<phi>1 lam1 \<phi>2 lam2"
    unfolding a by (simp add: algebra_simps)
  have "0 \<le> (1 - S) * (1 - T)" "0 \<le> (1 - S - P) * T"
    using S T P by simp_all
  then have "0 \<le> (1 - S) * (1 - T) + (1 - S - P) * T"
    by linarith
  then show "haversine \<phi>1 lam1 \<phi>2 lam2 \<le> 1"
    unfolding a by (simp add: algebra_simps)
qed

lemma haversine_exact:
  "js_add Fin
     (js_mul Fin (js_sin Fin (js_div Fin (js_sub Fin (Fin \<phi>2) (Fin \<phi>1)) (Fin 2)))
                 (js_sin Fin (js_div Fin (js_sub Fin (Fin \<phi>2) (Fin \<phi>1)) (Fin 2))))
     (js_mul Fin
        (js_mul Fin (js_mul Fin (js_cos Fin (Fin \<phi>1)) (js_cos Fin (Fin \<phi>2)))
                    (js_sin Fin (js_div Fin (js_sub Fin (Fin lam2) (Fin lam1)) (Fin 2))))
        (js_sin Fin (js_div Fin (js_sub Fin (Fin lam2) (Fin lam1)) (Fin 2))))
   = Fin (haversine \<phi>1 lam1 \<phi>2 lam2)"
  by (simp add: js_sub_def haversine_def)



lemma distance_exact:
  assumes "(case radius of None \<Rightarrow> MEAN_EARTH_RADIUS | Some x \<Rightarrow> x) = Fin r"
  shows "greatCircleGroundDistance Fin
     \<lparr>longitude = Fin lam1, latitude = Fin \<phi>1, height = h1\<rparr>
     \<lparr>longitude = Fin lam2, latitude = Fin \<phi>2, height = h2\<rparr> radius
   = Fin (r * (2 * arctan2 (sqrt (haversine \<phi>1 lam1 \<phi>2 lam2))
                           (sqrt (1 - haversine \<phi>1 lam1 \<phi>2 lam2))))"
proof -
  have "\<not> haversine \<phi>1 lam1 \<phi>2 lam2 < 0" "\<not> 1 < haversine \<phi>1 lam1 \<phi>2 lam2"
    using haversine_bounds [of \<phi>1 lam1 \<phi>2 lam2] by simp_all
  then show ?thesis
    unfolding greatCircleGroundDistance_def Let_def cartographic.simps assms
      haversine_exact
    by (simp add: js_sub_def)
qed




lemma sin_phi2_bound:
  fixes \<phi> \<delta> \<theta> :: real
  shows "\<bar>sin \<phi> * cos \<delta> + cos \<phi> * sin \<delta> * cos \<theta>\<bar> \<le> 1"
proof -
  define s c u v where "s = sin \<phi>" and "c = cos \<phi>" and "u = cos \<delta>" and "v = sin \<delta> * cos \<theta>"
  have sc: "s * s + c * c = 1"
    using sin_cos_squared_add [of \<phi>] by (simp add: s_def c_def power2_eq_square)
  have "sin \<delta> * sin \<delta> * (cos \<theta> * cos \<theta>) \<le> sin \<delta> * sin \<delta> * 1"
    by (intro mult_left_mono) (simp_all add: cos_sq_bound)
  moreover have "v * v = sin \<delta> * sin \<delta> * (cos \<theta> * cos \<theta>)"
    by (simp add: v_def)
  moreover have "u * u + sin \<delta> * sin \<delta> = 1"
    using sin_cos_squared_add [of \<delta>] by (simp add: u_def power2_eq_square)
  ultimately have uv: "u * u + v * v \<le> 1"
    by linarith
  define A B where "A = (s * u + c * v)\<^sup>2" and "B = (s * v - c * u)\<^sup>2"
  have "A + B = (s * s + c * c) * (u * u + v * v)"
    by (simp add: A_def B_def power2_eq_square algebra_simps)
  then have "A + B = u * u + v * v"
    by (simp add: sc)
  moreover have "0 \<le> B"
    by (simp add: B_def)
  ultimately have "A \<le> 1"
    using uv by linarith
  then have "(s * u + c * v)\<^sup>2 \<le> 1\<^sup>2"
    by (simp add: A_def)
  then have "\<bar>s * u + c * v\<bar> \<le> 1"
    by (simp only: abs_le_square_iff [symmetric] abs_one)
  then show ?thesis
    by (simp add: s_def c_def u_def v_def mult.assoc)
qed

lemma trunc_rem_nonneg:
  assumes "0 < b" "0 \<le> a"
  shows "0 \<le> a - b * of_int (trunc (a / b))" "a - b * of_int (trunc (a / b)) < b"
proof -
  have q: "0 \<le> a / b"
    using assms by simp
  have "of_int \<lfloor>a / b\<rfloor> \<le> a / b" "a / b < of_int \<lfloor>a / b\<rfloor> + 1"
    by linarith+
  then have "of_int \<lfloor>a / b\<rfloor> * b \<le> a" "a < (of_int \<lfloor>a / b\<rfloor> + 1) * b"
    using assms(1) by (simp_all only: pos_le_divide_eq pos_divide_less_eq)
  then show "0 \<le> a - b * of_int (trunc (a / b))" "a - b * of_int (trunc (a / b)) < b"
    using q by (simp_all add: trunc_def algebra_simps)
qed

lemma trunc_rem_neg:
  assumes "0 < b" "a < 0"
  shows "- b < a - b * of_int (trunc (a / b))" "a - b * of_int (trunc (a / b)) \<le> 0"
proof -
  have q: "\<not> 0 \<le> a / b"
    using assms by (simp add: divide_less_0_iff not_le)
  have "a / b \<le> of_int \<lceil>a / b\<rceil>" "of_int \<lceil>a / b\<rceil> - 1 < a / b"
    by linarith+
  then have "a \<le> of_int \<lceil>a / b\<rceil> * b" "(of_int \<lceil>a / b\<rceil> - 1) * b < a"
    using assms(1) by (simp_all only: pos_divide_le_eq pos_less_divide_eq)
  then show "- b < a - b * of_int (trunc (a / b))" "a - b * of_int (trunc (a / b)) \<le> 0"
    using q by (simp_all add: trunc_def algebra_simps)
qed

lemma zeroToTwoPi_range:
  "\<exists>b. zeroToTwoPi Fin (Fin t) = Fin b \<and> 0 \<le> b \<and> b < 2 * pi"
proof -
  define m where "m = t - 2 * pi * of_int (trunc (t / (2 * pi)))"
  define b where "b = (m + 2 * pi) - 2 * pi * of_int (trunc ((m + 2 * pi) / (2 * pi)))"
  have "- (2 * pi) < m"
  proof (cases "0 \<le> t")
    case True
    then have "0 \<le> m"
      unfolding m_def by (intro trunc_rem_nonneg) simp_all
    moreover have "- (2 * pi) < 0"
      by simp
    ultimately show ?thesis
      by linarith
  next
    case False
    then show ?thesis
      unfolding m_def by (intro trunc_rem_neg) simp_all
  qed
  then have "0 \<le> m + 2 * pi"
    by simp
  then have "0 \<le> b" "b < 2 * pi"
    unfolding b_def using trunc_rem_nonneg [of "2 * pi" "m + 2 * pi"] by simp_all
  moreover have "zeroToTwoPi Fin (Fin t) = Fin b"
    by (simp add: zeroToTwoPi_def b_def m_def)
  ultimately show ?thesis
    by blast
qed






lemma bearing_exact:
  "\<exists>b. greatCircleInitialBearing Fin
          \<lparr>longitude = Fin lam1, latitude = Fin \<phi>1, height = h1\<rparr>
          \<lparr>longitude = Fin lam2, latitude = Fin \<phi>2, height = h2\<rparr> = Fin b
       \<and> 0 \<le> b \<and> b < 2 * pi"
  unfolding greatCircleInitialBearing_def Let_def
  by (simp add: js_sub_def zeroToTwoPi_range)

section \<open>Enclosures of the sine and the cosine\<close>

lemma sin_series:
  "\<bar>sin x - x * horner sin_coeffs (x * x)\<bar> \<le> \<bar>x\<bar> ^ 31 / 8222838654177922817725562880000000"
proof -
  have "(\<Sum>m<31. sin_coeff m * x ^ m) =
      x - x^3 / 6 + x^5 / 120 - x^7 / 5040 + x^9 / 362880 - x^11 / 39916800
      + x^13 / 6227020800 - x^15 / 1307674368000 + x^17 / 355687428096000
      - x^19 / 121645100408832000 + x^21 / 51090942171709440000
      - x^23 / 25852016738884976640000 + x^25 / 15511210043330985984000000
      - x^27 / 10888869450418352160768000000 + x^29 / 8841761993739701954543616000000"
    by (simp add: sin_coeff_def lessThan_nat_numeral fact_numeral)
  also have "\<dots> = x * horner sin_coeffs (x * x)"
    by (simp add: sin_coeffs_def algebra_simps eval_nat_numeral)
  finally have "(\<Sum>m<31. sin_coeff m * x ^ m) = x * horner sin_coeffs (x * x)" .
  moreover have "\<bar>sin x - (\<Sum>m<31. sin_coeff m * x ^ m)\<bar> \<le> inverse (fact 31) * \<bar>x\<bar> ^ 31"
    by (rule Maclaurin_sin_bound)
  moreover have "(fact 31 :: real) = 8222838654177922817725562880000000"
    by (simp add: fact_numeral)
  ultimately show ?thesis
    by (simp only: inverse_eq_divide times_divide_eq_left mult_1)
qed

lemma Maclaurin_cos_bound: "\<bar>cos x - (\<Sum>m<n. cos_coeff m * x ^ m)\<bar> \<le> \<bar>x\<bar> ^ n / fact n"
proof -
  obtain t where "cos x = (\<Sum>m<n. cos_coeff m * x ^ m) + (cos (t + 1 / 2 * real n * pi) / fact n) * x ^ n"
    using Maclaurin_cos_expansion [of x n] by blast
  then have "\<bar>cos x - (\<Sum>m<n. cos_coeff m * x ^ m)\<bar> = \<bar>cos (t + 1 / 2 * real n * pi)\<bar> * (\<bar>x\<bar> ^ n / fact n)"
    by (simp add: abs_mult power_abs)
  also have "\<dots> \<le> 1 * (\<bar>x\<bar> ^ n / fact n)"
    by (intro mult_right_mono) simp_all
  finally show ?thesis
    by simp
qed

lemma cos_series:
  "\<bar>cos x - horner cos_coeffs (x * x)\<bar> \<le> \<bar>x\<bar> ^ 30 / 265252859812191058636308480000000"
proof -
  have "(\<Sum>m<30. cos_coeff m * x ^ m) =
      1 - x^2 / 2 + x^4 / 24 - x^6 / 720 + x^8 / 40320 - x^10 / 3628800 + x^12 / 479001600
      - x^14 / 87178291200 + x^16 / 20922789888000 - x^18 / 6402373705728000
      + x^20 / 2432902008176640000 - x^22 / 1124000727777607680000
      + x^24 / 620448401733239439360000 - x^26 / 403291461126605635584000000
      + x^28 / 304888344611713860501504000000"
    by (simp add: cos_coeff_def lessThan_nat_numeral fact_numeral)
  also have "\<dots> = horner cos_coeffs (x * x)"
    by (simp add: cos_coeffs_def algebra_simps eval_nat_numeral)
  finally have "(\<Sum>m<30. cos_coeff m * x ^ m) = horner cos_coeffs (x * x)" .
  moreover have "\<bar>cos x - (\<Sum>m<30. cos_coeff m * x ^ m)\<bar> \<le> \<bar>x\<bar> ^ 30 / fact 30"
    by (rule Maclaurin_cos_bound)
  moreover have "(fact 30 :: real) = 265252859812191058636308480000000"
    by (simp add: fact_numeral)
  ultimately show ?thesis
    by simp
qed

text \<open>One step of the evaluation of a polynomial on an interval, with outward rounding.\<close>

lemma horner_step:
  assumes "lo \<le> horner cs t \<and> horner cs t \<le> hi" "0 \<le> t"
    and "lo' \<le> c + t * lo" "c + t * hi \<le> hi'"
  shows "lo' \<le> horner (c # cs) t \<and> horner (c # cs) t \<le> hi'"
proof -
  have "t * lo \<le> t * horner cs t" "t * horner cs t \<le> t * hi"
    using assms(1,2) by (simp_all add: mult_left_mono)
  with assms(3,4) show ?thesis
    by simp
qed

lemma horner_drop_step:
  assumes "lo \<le> horner (drop k' cs) t \<and> horner (drop k' cs) t \<le> hi" "0 \<le> t"
    and "k' = Suc k" "k < length cs"
    and "lo' \<le> cs ! k + t * lo" "cs ! k + t * hi \<le> hi'"
  shows "lo' \<le> horner (drop k cs) t \<and> horner (drop k cs) t \<le> hi'"
proof -
  have "drop k cs = cs ! k # drop k' cs"
    using assms(3,4) by (simp add: Cons_nth_drop_Suc)
  then show ?thesis
    using horner_step [OF assms(1,2,5,6)] by simp
qed

lemma scale_step:
  fixes q :: real
  assumes "lo \<le> q \<and> q \<le> hi" "0 \<le> x"
    and "lo' \<le> x * lo" "x * hi \<le> hi'"
  shows "lo' \<le> x * q \<and> x * q \<le> hi'"
proof -
  have "x * lo \<le> x * q" "x * q \<le> x * hi"
    using assms(1,2) by (simp_all add: mult_left_mono)
  with assms(3,4) show ?thesis
    by simp
qed

lemma enclosure:
  fixes s p :: real
  assumes "\<bar>s - p\<bar> \<le> r" "lo \<le> p \<and> p \<le> hi" "r \<le> rb" "L \<le> lo - rb" "hi + rb \<le> U"
  shows "L \<le> s \<and> s \<le> U"
  using assms by (simp add: abs_le_iff)

text \<open>
  The doubles of the examples: \<open>884279719003555 / 562949953421312\<close> is
  1.5707963267948966, the half of \<^verbatim>\<open>Math.PI\<close>, and the two points of the first two
  enclosures lie just above it, on either side of \<open>\<pi>/2\<close>;
  \<open>884279716906403 / 562949953421312\<close> is 1.5707963230696063;
  \<open>1224979098644775 / 72057594037927936\<close> is 0.017; and
  \<open>6997676558363143 / 4503599627370496\<close> is 1.5537963267948969.
\<close>

lemma cos_below_half_pi:
  "10609210065769 / 316912650057057350374175801344 \<le> cos (56593902016227521 / 36028797018963968 :: real)
   \<and> cos (56593902016227521 / 36028797018963968 :: real) \<le> 42436840448785 / 1267650600228229401496703205376"
proof -
  define x :: real where "x = 56593902016227521 / 36028797018963968"
  define t :: real where "t = 3202869745422361466617216437805441 / 1298074214633706907132624082305024"
  define q where "q k = horner (drop k cos_coeffs) t" for k
  have t0: "0 \<le> t"
    by (simp add: t_def)
  have xx: "x * x = t"
    by (simp add: x_def t_def)
  have b14: "1 / 304888344611713860501504000000 \<le> q 14
      \<and> q 14 \<le> 1 / 304888344611713860501504000000"
    by (simp add: q_def cos_coeffs_def)
  have b13: "- (1567 / 633825300114114700748351602688) \<le> q 13
      \<and> q 13 \<le> - (3133 / 1267650600228229401496703205376)"
    unfolding q_def by (rule horner_drop_step [OF b14 [unfolded q_def] t0])
      (simp_all add: cos_coeffs_def t_def)
  have b12: "2035387 / 1267650600228229401496703205376 \<le> q 12
      \<and> q 12 \<le> 1017695 / 633825300114114700748351602688"
    unfolding q_def by (rule horner_drop_step [OF b13 [unfolded q_def] t0])
      (simp_all add: cos_coeffs_def t_def)
  have b11: "- (1122780179 / 1267650600228229401496703205376) \<le> q 11
      \<and> q 11 \<le> - (1122780171 / 1267650600228229401496703205376)"
    unfolding q_def by (rule horner_drop_step [OF b12 [unfolded q_def] t0])
      (simp_all add: cos_coeffs_def t_def)
  have b10: "518274311183 / 1267650600228229401496703205376 \<le> q 10
      \<and> q 10 \<le> 518274311203 / 1267650600228229401496703205376"
    unfolding q_def by (rule horner_drop_step [OF b11 [unfolded q_def] t0])
      (simp_all add: cos_coeffs_def t_def)
  have b9: "- (196718180282517 / 1267650600228229401496703205376) \<le> q 9
      \<and> q 9 \<le> - (196718180282467 / 1267650600228229401496703205376)"
    unfolding q_def by (rule horner_drop_step [OF b10 [unfolded q_def] t0])
      (simp_all add: cos_coeffs_def t_def)
  have b8: "60101690437308201 / 1267650600228229401496703205376 \<le> q 8
      \<and> q 8 \<le> 30050845218654163 / 633825300114114700748351602688"
    unfolding q_def by (rule horner_drop_step [OF b9 [unfolded q_def] t0])
      (simp_all add: cos_coeffs_def t_def)
  have b7: "- (14392602564914163771 / 1267650600228229401496703205376) \<le> q 7
      \<and> q 7 \<le> - (14392602564914163461 / 1267650600228229401496703205376)"
    unfolding q_def by (rule horner_drop_step [OF b8 [unfolded q_def] t0])
      (simp_all add: cos_coeffs_def t_def)
  have b6: "2610931029244536110445 / 1267650600228229401496703205376 \<le> q 6
      \<and> q 6 \<le> 2610931029244536111211 / 1267650600228229401496703205376"
    unfolding q_def by (rule horner_drop_step [OF b7 [unfolded q_def] t0])
      (simp_all add: cos_coeffs_def t_def)
  have b5: "- (342888308455373231157645 / 1267650600228229401496703205376) \<le> q 5
      \<and> q 5 \<le> - (171444154227686615577877 / 633825300114114700748351602688)"
    unfolding q_def by (rule horner_drop_step [OF b6 [unfolded q_def] t0])
      (simp_all add: cos_coeffs_def t_def)
  have b4: "30593704039916665976597711 / 1267650600228229401496703205376 \<le> q 4
      \<and> q 4 \<le> 15296852019958332988301189 / 633825300114114700748351602688"
    unfolding q_def by (rule horner_drop_step [OF b5 [unfolded q_def] t0])
      (simp_all add: cos_coeffs_def t_def)
  have b3: "- (1685138894640821912073937869 / 1267650600228229401496703205376) \<le> q 3
      \<and> q 3 \<le> - (1685138894640821912073926353 / 1267650600228229401496703205376)"
    unfolding q_def by (rule horner_drop_step [OF b4 [unfolded q_def] t0])
      (simp_all add: cos_coeffs_def t_def)
  have b2: "1520651920211283760545773021 / 39614081257132168796771975168 \<le> q 2
      \<and> q 2 \<le> 1520651920211283760545773909 / 39614081257132168796771975168"
    unfolding q_def by (rule horner_drop_step [OF b3 [unfolded q_def] t0])
      (simp_all add: cos_coeffs_def t_def)
  have b1: "- (513759437040176542599947861205 / 1267650600228229401496703205376) \<le> q 1
      \<and> q 1 \<le> - (256879718520088271299973895545 / 633825300114114700748351602688)"
    unfolding q_def by (rule horner_drop_step [OF b2 [unfolded q_def] t0])
      (simp_all add: cos_coeffs_def t_def)
  have b0: "42436840269429 / 1267650600228229401496703205376 \<le> q 0
      \<and> q 0 \<le> 663075631913 / 19807040628566084398385987584"
    unfolding q_def by (rule horner_drop_step [OF b1 [unfolded q_def] t0])
      (simp_all add: cos_coeffs_def t_def)
  have b: "42436840269429 / 1267650600228229401496703205376 \<le> horner cos_coeffs t
      \<and> horner cos_coeffs t \<le> 663075631913 / 19807040628566084398385987584"
    using b0 by (simp add: q_def)
  have p: "42436840269429 / 1267650600228229401496703205376 \<le> horner cos_coeffs (x * x)
      \<and> horner cos_coeffs (x * x) \<le> 663075631913 / 19807040628566084398385987584"
    unfolding xx by (rule b)
  have "\<bar>x\<bar> ^ 30 \<le> (8 / 5) ^ 30"
    by (intro power_mono) (simp_all add: x_def)
  then have "\<bar>x\<bar> ^ 30 / 265252859812191058636308480000000 \<le> (8 / 5) ^ 30 / 265252859812191058636308480000000"
    by (intro divide_right_mono) simp_all
  also have "\<dots> \<le> 6353 / 1267650600228229401496703205376"
    by (simp add: power_divide)
  finally have r: "\<bar>x\<bar> ^ 30 / 265252859812191058636308480000000 \<le> 6353 / 1267650600228229401496703205376" .
  have "10609210065769 / 316912650057057350374175801344 \<le> cos x
      \<and> cos x \<le> 42436840448785 / 1267650600228229401496703205376"
    by (rule enclosure [OF cos_series p r]) simp_all
  then show ?thesis
    by (simp only: x_def)
qed

lemma cos_above_half_pi:
  "- (63116276003239 / 1267650600228229401496703205376) \<le> cos (14148475504056881 / 9007199254740992 :: real)
   \<and> cos (14148475504056881 / 9007199254740992 :: real) \<le> - (63116275819181 / 1267650600228229401496703205376)"
proof -
  define x :: real where "x = 14148475504056881 / 9007199254740992"
  define t :: real where "t = 200179359088897612886289283448161 / 81129638414606681695789005144064"
  define q where "q k = horner (drop k cos_coeffs) t" for k
  have t0: "0 \<le> t"
    by (simp add: t_def)
  have xx: "x * x = t"
    by (simp add: x_def t_def)
  have b14: "1 / 304888344611713860501504000000 \<le> q 14
      \<and> q 14 \<le> 1 / 304888344611713860501504000000"
    by (simp add: q_def cos_coeffs_def)
  have b13: "- (1567 / 633825300114114700748351602688) \<le> q 13
      \<and> q 13 \<le> - (3133 / 1267650600228229401496703205376)"
    unfolding q_def by (rule horner_drop_step [OF b14 [unfolded q_def] t0])
      (simp_all add: cos_coeffs_def t_def)
  have b12: "2035387 / 1267650600228229401496703205376 \<le> q 12
      \<and> q 12 \<le> 1017695 / 633825300114114700748351602688"
    unfolding q_def by (rule horner_drop_step [OF b13 [unfolded q_def] t0])
      (simp_all add: cos_coeffs_def t_def)
  have b11: "- (1122780179 / 1267650600228229401496703205376) \<le> q 11
      \<and> q 11 \<le> - (1122780171 / 1267650600228229401496703205376)"
    unfolding q_def by (rule horner_drop_step [OF b12 [unfolded q_def] t0])
      (simp_all add: cos_coeffs_def t_def)
  have b10: "518274311183 / 1267650600228229401496703205376 \<le> q 10
      \<and> q 10 \<le> 518274311203 / 1267650600228229401496703205376"
    unfolding q_def by (rule horner_drop_step [OF b11 [unfolded q_def] t0])
      (simp_all add: cos_coeffs_def t_def)
  have b9: "- (196718180282517 / 1267650600228229401496703205376) \<le> q 9
      \<and> q 9 \<le> - (196718180282467 / 1267650600228229401496703205376)"
    unfolding q_def by (rule horner_drop_step [OF b10 [unfolded q_def] t0])
      (simp_all add: cos_coeffs_def t_def)
  have b8: "60101690437308201 / 1267650600228229401496703205376 \<le> q 8
      \<and> q 8 \<le> 60101690437308325 / 1267650600228229401496703205376"
    unfolding q_def by (rule horner_drop_step [OF b9 [unfolded q_def] t0])
      (simp_all add: cos_coeffs_def t_def)
  have b7: "- (14392602564914163755 / 1267650600228229401496703205376) \<le> q 7
      \<and> q 7 \<le> - (1799075320614270431 / 158456325028528675187087900672)"
    unfolding q_def by (rule horner_drop_step [OF b8 [unfolded q_def] t0])
      (simp_all add: cos_coeffs_def t_def)
  have b6: "2610931029244536106719 / 1267650600228229401496703205376 \<le> q 6
      \<and> q 6 \<le> 1305465514622268053739 / 633825300114114700748351602688"
    unfolding q_def by (rule horner_drop_step [OF b7 [unfolded q_def] t0])
      (simp_all add: cos_coeffs_def t_def)
  have b5: "- (85722077113843307620961 / 316912650057057350374175801344) \<le> q 5
      \<and> q 5 \<le> - (342888308455373230481971 / 1267650600228229401496703205376)"
    unfolding q_def by (rule horner_drop_step [OF b6 [unfolded q_def] t0])
      (simp_all add: cos_coeffs_def t_def)
  have b4: "30593704039916665888564049 / 1267650600228229401496703205376 \<le> q 4
      \<and> q 4 \<le> 30593704039916665888568671 / 1267650600228229401496703205376"
    unfolding q_def by (rule horner_drop_step [OF b5 [unfolded q_def] t0])
      (simp_all add: cos_coeffs_def t_def)
  have b3: "- (842569447320410952144070491 / 633825300114114700748351602688) \<le> q 3
      \<and> q 3 \<le> - (210642361830102738036016197 / 158456325028528675187087900672)"
    unfolding q_def by (rule horner_drop_step [OF b4 [unfolded q_def] t0])
      (simp_all add: cos_coeffs_def t_def)
  have b2: "48660861446761079915859705573 / 1267650600228229401496703205376 \<le> q 2
      \<and> q 2 \<le> 24330430723380539957929866859 / 633825300114114700748351602688"
    unfolding q_def by (rule horner_drop_step [OF b3 [unfolded q_def] t0])
      (simp_all add: cos_coeffs_def t_def)
  have b1: "- (32109964815011033181938446835 / 79228162514264337593543950336) \<le> q 1
      \<and> q 1 \<le> - (256879718520088265455507539957 / 633825300114114700748351602688)"
    unfolding q_def by (rule horner_drop_step [OF b2 [unfolded q_def] t0])
      (simp_all add: cos_coeffs_def t_def)
  have b0: "- (31558137998443 / 633825300114114700748351602688) \<le> q 0
      \<and> q 0 \<le> - (31558137912767 / 633825300114114700748351602688)"
    unfolding q_def by (rule horner_drop_step [OF b1 [unfolded q_def] t0])
      (simp_all add: cos_coeffs_def t_def)
  have b: "- (31558137998443 / 633825300114114700748351602688) \<le> horner cos_coeffs t
      \<and> horner cos_coeffs t \<le> - (31558137912767 / 633825300114114700748351602688)"
    using b0 by (simp add: q_def)
  have p: "- (31558137998443 / 633825300114114700748351602688) \<le> horner cos_coeffs (x * x)
      \<and> horner cos_coeffs (x * x) \<le> - (31558137912767 / 633825300114114700748351602688)"
    unfolding xx by (rule b)
  have "\<bar>x\<bar> ^ 30 \<le> (8 / 5) ^ 30"
    by (intro power_mono) (simp_all add: x_def)
  then have "\<bar>x\<bar> ^ 30 / 265252859812191058636308480000000 \<le> (8 / 5) ^ 30 / 265252859812191058636308480000000"
    by (intro divide_right_mono) simp_all
  also have "\<dots> \<le> 6353 / 1267650600228229401496703205376"
    by (simp add: power_divide)
  finally have r: "\<bar>x\<bar> ^ 30 / 265252859812191058636308480000000 \<le> 6353 / 1267650600228229401496703205376" .
  have "- (63116276003239 / 1267650600228229401496703205376) \<le> cos x
      \<and> cos x \<le> - (63116275819181 / 1267650600228229401496703205376)"
    by (rule enclosure [OF cos_series p r]) simp_all
  then show ?thesis
    by (simp only: x_def)
qed

lemma sin_half_pi:
  "1267650600228229401496702975345 / 1267650600228229401496703205376 \<le> sin (884279719003555 / 562949953421312 :: real)
   \<and> sin (884279719003555 / 562949953421312 :: real) \<le> 1267650600228229401496703283565 / 1267650600228229401496703205376"
proof -
  define x :: real where "x = 884279719003555 / 562949953421312"
  define t :: real where "t = 781950621441006189802102638025 / 316912650057057350374175801344"
  define q where "q k = horner (drop k sin_coeffs) t" for k
  have t0: "0 \<le> t"
    by (simp add: t_def)
  have xx: "x * x = t"
    by (simp add: x_def t_def)
  have b14: "1 / 8841761993739701954543616000000 \<le> q 14
      \<and> q 14 \<le> 1 / 8841761993739701954543616000000"
    by (simp add: q_def sin_coeffs_def)
  have b13: "- (117 / 1267650600228229401496703205376) \<le> q 13
      \<and> q 13 \<le> - (29 / 316912650057057350374175801344)"
    unfolding q_def by (rule horner_drop_step [OF b14 [unfolded q_def] t0])
      (simp_all add: sin_coeffs_def t_def)
  have b12: "20359 / 316912650057057350374175801344 \<le> q 12
      \<and> q 12 \<le> 81439 / 1267650600228229401496703205376"
    unfolding q_def by (rule horner_drop_step [OF b13 [unfolded q_def] t0])
      (simp_all add: sin_coeffs_def t_def)
  have b11: "- (12208487 / 316912650057057350374175801344) \<le> q 11
      \<and> q 11 \<le> - (48833939 / 1267650600228229401496703205376)"
    unfolding q_def by (rule horner_drop_step [OF b12 [unfolded q_def] t0])
      (simp_all add: sin_coeffs_def t_def)
  have b10: "12345578775 / 633825300114114700748351602688 \<le> q 10
      \<and> q 10 \<le> 24691157573 / 1267650600228229401496703205376"
    unfolding q_def by (rule horner_drop_step [OF b11 [unfolded q_def] t0])
      (simp_all add: sin_coeffs_def t_def)
  have b9: "- (10359970215335 / 1267650600228229401496703205376) \<le> q 9
      \<and> q 9 \<le> - (5179985107639 / 633825300114114700748351602688)"
    unfolding q_def by (rule horner_drop_step [OF b10 [unfolded q_def] t0])
      (simp_all add: sin_coeffs_def t_def)
  have b8: "1769191637039501 / 633825300114114700748351602688 \<le> q 8
      \<and> q 8 \<le> 442297909259893 / 158456325028528675187087900672"
    unfolding q_def by (rule horner_drop_step [OF b9 [unfolded q_def] t0])
      (simp_all add: sin_coeffs_def t_def)
  have b7: "- (960662558684845933 / 1267650600228229401496703205376) \<le> q 7
      \<and> q 7 \<le> - (480331279342422791 / 633825300114114700748351602688)"
    unfolding q_def by (rule horner_drop_step [OF b8 [unfolded q_def] t0])
      (simp_all add: sin_coeffs_def t_def)
  have b6: "50300556433523562075 / 316912650057057350374175801344 \<le> q 6
      \<and> q 6 \<le> 201202225734094249167 / 1267650600228229401496703205376"
    unfolding q_def by (rule horner_drop_step [OF b7 [unfolded q_def] t0])
      (simp_all add: sin_coeffs_def t_def)
  have b5: "- (31260873638634306011529 / 1267650600228229401496703205376) \<le> q 5
      \<and> q 5 \<le> - (31260873638634306009389 / 1267650600228229401496703205376)"
    unfolding q_def by (rule horner_drop_step [OF b6 [unfolded q_def] t0])
      (simp_all add: sin_coeffs_def t_def)
  have b4: "106755378483913220512175 / 39614081257132168796771975168 \<le> q 4
      \<and> q 4 \<le> 1708086055742611528197441 / 633825300114114700748351602688"
    unfolding q_def by (rule horner_drop_step [OF b5 [unfolded q_def] t0])
      (simp_all add: sin_coeffs_def t_def)
  have b3: "- (121544454704580740702538677 / 633825300114114700748351602688) \<le> q 3
      \<and> q 3 \<le> - (1899132104759074073477065 / 9903520314283042199192993792)"
    unfolding q_def by (rule horner_drop_step [OF b4 [unfolded q_def] t0])
      (simp_all add: sin_coeffs_def t_def)
  have b2: "9963957159361743586952990355 / 1267650600228229401496703205376 \<le> q 2
      \<and> q 2 \<le> 2490989289840435896738255629 / 316912650057057350374175801344"
    unfolding q_def by (rule horner_drop_step [OF b3 [unfolded q_def] t0])
      (simp_all add: sin_coeffs_def t_def)
  have b1: "- (186690021179962613422843264777 / 1267650600228229401496703205376) \<le> q 1
      \<and> q 1 \<le> - (93345010589981306711421592711 / 633825300114114700748351602688)"
    unfolding q_def by (rule horner_drop_step [OF b2 [unfolded q_def] t0])
      (simp_all add: sin_coeffs_def t_def)
  have b0: "201752859139730822796405184521 / 316912650057057350374175801344 \<le> q 0
      \<and> q 0 \<le> 807011436558923291185620933885 / 1267650600228229401496703205376"
    unfolding q_def by (rule horner_drop_step [OF b1 [unfolded q_def] t0])
      (simp_all add: sin_coeffs_def t_def)
  have b: "201752859139730822796405184521 / 316912650057057350374175801344 \<le> horner sin_coeffs t
      \<and> horner sin_coeffs t \<le> 807011436558923291185620933885 / 1267650600228229401496703205376"
    using b0 by (simp add: q_def)
  have p: "1267650600228229401496702975673 / 1267650600228229401496703205376 \<le> x * horner sin_coeffs (x * x)
      \<and> x * horner sin_coeffs (x * x) \<le> 1267650600228229401496703283237 / 1267650600228229401496703205376"
    unfolding xx by (rule scale_step [OF b]) (simp_all add: x_def)
  have "\<bar>x\<bar> ^ 31 \<le> (8 / 5) ^ 31"
    by (intro power_mono) (simp_all add: x_def)
  then have "\<bar>x\<bar> ^ 31 / 8222838654177922817725562880000000 \<le> (8 / 5) ^ 31 / 8222838654177922817725562880000000"
    by (intro divide_right_mono) simp_all
  also have "\<dots> \<le> 41 / 158456325028528675187087900672"
    by (simp add: power_divide)
  finally have r: "\<bar>x\<bar> ^ 31 / 8222838654177922817725562880000000 \<le> 41 / 158456325028528675187087900672" .
  have "1267650600228229401496702975345 / 1267650600228229401496703205376 \<le> sin x
      \<and> sin x \<le> 1267650600228229401496703283565 / 1267650600228229401496703205376"
    by (rule enclosure [OF sin_series p r]) simp_all
  then show ?thesis
    by (simp only: x_def)
qed


lemma sin_lat:
  "21549022224312332770088138275 / 1267650600228229401496703205376 \<le> sin (1224979098644775 / 72057594037927936 :: real)
   \<and> sin (1224979098644775 / 72057594037927936 :: real) \<le> 10774511112156166385044069139 / 633825300114114700748351602688"
proof -
  define x :: real where "x = 1224979098644775 / 72057594037927936"
  define t :: real where "t = 1500573792116565400241634800625 / 5192296858534827628530496329220096"
  define q where "q k = horner (drop k sin_coeffs) t" for k
  have t0: "0 \<le> t"
    by (simp add: t_def)
  have xx: "x * x = t"
    by (simp add: x_def t_def)
  have b14: "1 / 8841761993739701954543616000000 \<le> q 14
      \<and> q 14 \<le> 1 / 8841761993739701954543616000000"
    by (simp add: q_def sin_coeffs_def)
  have b13: "- (117 / 1267650600228229401496703205376) \<le> q 13
      \<and> q 13 \<le> - (29 / 316912650057057350374175801344)"
    unfolding q_def by (rule horner_drop_step [OF b14 [unfolded q_def] t0])
      (simp_all add: sin_coeffs_def t_def)
  have b12: "20431 / 316912650057057350374175801344 \<le> q 12
      \<and> q 12 \<le> 81725 / 1267650600228229401496703205376"
    unfolding q_def by (rule horner_drop_step [OF b13 [unfolded q_def] t0])
      (simp_all add: sin_coeffs_def t_def)
  have b11: "- (49034859 / 1267650600228229401496703205376) \<le> q 11
      \<and> q 11 \<le> - (24517429 / 633825300114114700748351602688)"
    unfolding q_def by (rule horner_drop_step [OF b12 [unfolded q_def] t0])
      (simp_all add: sin_coeffs_def t_def)
  have b10: "6202909079 / 316912650057057350374175801344 \<le> q 10
      \<and> q 10 \<le> 24811636317 / 1267650600228229401496703205376"
    unfolding q_def by (rule horner_drop_step [OF b11 [unfolded q_def] t0])
      (simp_all add: sin_coeffs_def t_def)
  have b9: "- (5210443017039 / 633825300114114700748351602688) \<le> q 9
      \<and> q 9 \<le> - (10420886034077 / 1267650600228229401496703205376)"
    unfolding q_def by (rule horner_drop_step [OF b10 [unfolded q_def] t0])
      (simp_all add: sin_coeffs_def t_def)
  have b8: "3563942464351045 / 1267650600228229401496703205376 \<le> q 8
      \<and> q 8 \<le> 1781971232175523 / 633825300114114700748351602688"
    unfolding q_def by (rule horner_drop_step [OF b9 [unfolded q_def] t0])
      (simp_all add: sin_coeffs_def t_def)
  have b7: "- (242348034872280377 / 316912650057057350374175801344) \<le> q 7
      \<and> q 7 \<le> - (969392139489121507 / 1267650600228229401496703205376)"
    unfolding q_def by (rule horner_drop_step [OF b8 [unfolded q_def] t0])
      (simp_all add: sin_coeffs_def t_def)
  have b6: "203572285434055365677 / 1267650600228229401496703205376 \<le> q 6
      \<and> q 6 \<le> 101786142717027682839 / 633825300114114700748351602688"
    unfolding q_def by (rule horner_drop_step [OF b7 [unfolded q_def] t0])
      (simp_all add: sin_coeffs_def t_def)
  have b5: "- (31757261399397363331257 / 1267650600228229401496703205376) \<le> q 5
      \<and> q 5 \<le> - (3969657674924670416407 / 158456325028528675187087900672)"
    unfolding q_def by (rule horner_drop_step [OF b6 [unfolded q_def] t0])
      (simp_all add: sin_coeffs_def t_def)
  have b4: "3493296047648119489219935 / 1267650600228229401496703205376 \<le> q 4
      \<and> q 4 \<le> 109165501489003734038123 / 39614081257132168796771975168"
    unfolding q_def by (rule horner_drop_step [OF b5 [unfolded q_def] t0])
      (simp_all add: sin_coeffs_def t_def)
  have b3: "- (251516966673202031577589075 / 1267650600228229401496703205376) \<le> q 3
      \<and> q 3 \<le> - (125758483336601015788794537 / 633825300114114700748351602688)"
    unfolding q_def by (rule horner_drop_step [OF b4 [unfolded q_def] t0])
      (simp_all add: sin_coeffs_def t_def)
  have b2: "10563682313498543123741623881 / 1267650600228229401496703205376 \<le> q 2
      \<and> q 2 \<le> 5281841156749271561870811941 / 633825300114114700748351602688"
    unfolding q_def by (rule horner_drop_step [OF b3 [unfolded q_def] t0])
      (simp_all add: sin_coeffs_def t_def)
  have b1: "- (211272047133849632503382477413 / 1267650600228229401496703205376) \<le> q 1
      \<and> q 1 \<le> - (52818011783462408125845619353 / 316912650057057350374175801344)"
    unfolding q_def by (rule horner_drop_step [OF b2 [unfolded q_def] t0])
      (simp_all add: sin_coeffs_def t_def)
  have b0: "1267589542606607718944137217829 / 1267650600228229401496703205376 \<le> q 0
      \<and> q 0 \<le> 633794771303303859472068608915 / 633825300114114700748351602688"
    unfolding q_def by (rule horner_drop_step [OF b1 [unfolded q_def] t0])
      (simp_all add: sin_coeffs_def t_def)
  have b: "1267589542606607718944137217829 / 1267650600228229401496703205376 \<le> horner sin_coeffs t
      \<and> horner sin_coeffs t \<le> 633794771303303859472068608915 / 633825300114114700748351602688"
    using b0 by (simp add: q_def)
  have p: "5387255556078083192522034569 / 316912650057057350374175801344 \<le> x * horner sin_coeffs (x * x)
      \<and> x * horner sin_coeffs (x * x) \<le> 21549022224312332770088138277 / 1267650600228229401496703205376"
    unfolding xx by (rule scale_step [OF b]) (simp_all add: x_def)
  have "\<bar>x\<bar> ^ 31 \<le> (1 / 50) ^ 31"
    by (intro power_mono) (simp_all add: x_def)
  then have "\<bar>x\<bar> ^ 31 / 8222838654177922817725562880000000 \<le> (1 / 50) ^ 31 / 8222838654177922817725562880000000"
    by (intro divide_right_mono) simp_all
  also have "\<dots> \<le> 1 / 1267650600228229401496703205376"
    by (simp add: power_divide)
  finally have r: "\<bar>x\<bar> ^ 31 / 8222838654177922817725562880000000 \<le> 1 / 1267650600228229401496703205376" .
  have "21549022224312332770088138275 / 1267650600228229401496703205376 \<le> sin x
      \<and> sin x \<le> 10774511112156166385044069139 / 633825300114114700748351602688"
    by (rule enclosure [OF sin_series p r]) simp_all
  then show ?thesis
    by (simp only: x_def)
qed

lemma cos_lat:
  "1267467429127930832882890543783 / 1267650600228229401496703205376 \<le> cos (1224979098644775 / 72057594037927936 :: real)
   \<and> cos (1224979098644775 / 72057594037927936 :: real) \<le> 633733714563965416441445271893 / 633825300114114700748351602688"
proof -
  define x :: real where "x = 1224979098644775 / 72057594037927936"
  define t :: real where "t = 1500573792116565400241634800625 / 5192296858534827628530496329220096"
  define q where "q k = horner (drop k cos_coeffs) t" for k
  have t0: "0 \<le> t"
    by (simp add: t_def)
  have xx: "x * x = t"
    by (simp add: x_def t_def)
  have b14: "1 / 304888344611713860501504000000 \<le> q 14
      \<and> q 14 \<le> 1 / 304888344611713860501504000000"
    by (simp add: q_def cos_coeffs_def)
  have b13: "- (393 / 158456325028528675187087900672) \<le> q 13
      \<and> q 13 \<le> - (3143 / 1267650600228229401496703205376)"
    unfolding q_def by (rule horner_drop_step [OF b14 [unfolded q_def] t0])
      (simp_all add: cos_coeffs_def t_def)
  have b12: "2043119 / 1267650600228229401496703205376 \<le> q 12
      \<and> q 12 \<le> 127695 / 79228162514264337593543950336"
    unfolding q_def by (rule horner_drop_step [OF b13 [unfolded q_def] t0])
      (simp_all add: cos_coeffs_def t_def)
  have b11: "- (1127801705 / 1267650600228229401496703205376) \<le> q 11
      \<and> q 11 \<le> - (140975213 / 158456325028528675187087900672)"
    unfolding q_def by (rule horner_drop_step [OF b12 [unfolded q_def] t0])
      (simp_all add: cos_coeffs_def t_def)
  have b10: "521044334297 / 1267650600228229401496703205376 \<le> q 10
      \<and> q 10 \<le> 260522167149 / 633825300114114700748351602688"
    unfolding q_def by (rule horner_drop_step [OF b11 [unfolded q_def] t0])
      (simp_all add: cos_coeffs_def t_def)
  have b9: "- (197996820306361 / 1267650600228229401496703205376) \<le> q 9
      \<and> q 9 \<le> - (24749602538295 / 158456325028528675187087900672)"
    unfolding q_def by (rule horner_drop_step [OF b10 [unfolded q_def] t0])
      (simp_all add: cos_coeffs_def t_def)
  have b8: "15146753967674947 / 316912650057057350374175801344 \<le> q 8
      \<and> q 8 \<le> 60587015870699789 / 1267650600228229401496703205376"
    unfolding q_def by (rule horner_drop_step [OF b9 [unfolded q_def] t0])
      (simp_all add: cos_coeffs_def t_def)
  have b7: "- (7270440016189909471 / 633825300114114700748351602688) \<le> q 7
      \<and> q 7 \<le> - (14540880032379818941 / 1267650600228229401496703205376)"
    unfolding q_def by (rule horner_drop_step [OF b8 [unfolded q_def] t0])
      (simp_all add: cos_coeffs_def t_def)
  have b6: "1323219575167329228335 / 633825300114114700748351602688 \<le> q 6
      \<and> q 6 \<le> 2646439150334658456671 / 1267650600228229401496703205376"
    unfolding q_def by (rule horner_drop_step [OF b7 [unfolded q_def] t0])
      (simp_all add: cos_coeffs_def t_def)
  have b5: "- (174664878864375972394761 / 633825300114114700748351602688) \<le> q 5
      \<and> q 5 \<le> - (349329757728751944789521 / 1267650600228229401496703205376)"
    unfolding q_def by (rule horner_drop_step [OF b6 [unfolded q_def] t0])
      (simp_all add: cos_coeffs_def t_def)
  have b4: "7859911518292497906551691 / 316912650057057350374175801344 \<le> q 4
      \<and> q 4 \<le> 31439646073169991626206765 / 1267650600228229401496703205376"
    unfolding q_def by (rule horner_drop_step [OF b5 [unfolded q_def] t0])
      (simp_all add: cos_coeffs_def t_def)
  have b3: "- (880308373796301733530490071 / 633825300114114700748351602688) \<le> q 3
      \<and> q 3 \<le> - (1760616747592603467060980141 / 1267650600228229401496703205376)"
    unfolding q_def by (rule horner_drop_step [OF b4 [unfolded q_def] t0])
      (simp_all add: cos_coeffs_def t_def)
  have b2: "26409133095634752066610440669 / 633825300114114700748351602688 \<le> q 2
      \<and> q 2 \<le> 52818266191269504133220881339 / 1267650600228229401496703205376"
    unfolding q_def by (rule horner_drop_step [OF b3 [unfolded q_def] t0])
      (simp_all add: cos_coeffs_def t_def)
  have b1: "- (158452508908796355964865990947 / 316912650057057350374175801344) \<le> q 1
      \<and> q 1 \<le> - (633810035635185423859463963787 / 1267650600228229401496703205376)"
    unfolding q_def by (rule horner_drop_step [OF b2 [unfolded q_def] t0])
      (simp_all add: cos_coeffs_def t_def)
  have b0: "158433428640991354110361317973 / 158456325028528675187087900672 \<le> q 0
      \<and> q 0 \<le> 1267467429127930832882890543785 / 1267650600228229401496703205376"
    unfolding q_def by (rule horner_drop_step [OF b1 [unfolded q_def] t0])
      (simp_all add: cos_coeffs_def t_def)
  have b: "158433428640991354110361317973 / 158456325028528675187087900672 \<le> horner cos_coeffs t
      \<and> horner cos_coeffs t \<le> 1267467429127930832882890543785 / 1267650600228229401496703205376"
    using b0 by (simp add: q_def)
  have p: "158433428640991354110361317973 / 158456325028528675187087900672 \<le> horner cos_coeffs (x * x)
      \<and> horner cos_coeffs (x * x) \<le> 1267467429127930832882890543785 / 1267650600228229401496703205376"
    unfolding xx by (rule b)
  have "\<bar>x\<bar> ^ 30 \<le> (1 / 50) ^ 30"
    by (intro power_mono) (simp_all add: x_def)
  then have "\<bar>x\<bar> ^ 30 / 265252859812191058636308480000000 \<le> (1 / 50) ^ 30 / 265252859812191058636308480000000"
    by (intro divide_right_mono) simp_all
  also have "\<dots> \<le> 1 / 1267650600228229401496703205376"
    by (simp add: power_divide)
  finally have r: "\<bar>x\<bar> ^ 30 / 265252859812191058636308480000000 \<le> 1 / 1267650600228229401496703205376" .
  have "1267467429127930832882890543783 / 1267650600228229401496703205376 \<le> cos x
      \<and> cos x \<le> 633733714563965416441445271893 / 633825300114114700748351602688"
    by (rule enclosure [OF cos_series p r]) simp_all
  then show ?thesis
    by (simp only: x_def)
qed

lemma sin_delta:
  "1267467429127930838441606736557 / 1267650600228229401496703205376 \<le> sin (6997676558363143 / 4503599627370496 :: real)
   \<and> sin (6997676558363143 / 4503599627370496 :: real) \<le> 1267467429127930838441606951663 / 1267650600228229401496703205376"
proof -
  define x :: real where "x = 6997676558363143 / 4503599627370496"
  define t :: real where "t = 48967477215465041880735460838449 / 20282409603651670423947251286016"
  define q where "q k = horner (drop k sin_coeffs) t" for k
  have t0: "0 \<le> t"
    by (simp add: t_def)
  have xx: "x * x = t"
    by (simp add: x_def t_def)
  have b14: "1 / 8841761993739701954543616000000 \<le> q 14
      \<and> q 14 \<le> 1 / 8841761993739701954543616000000"
    by (simp add: q_def sin_coeffs_def)
  have b13: "- (117 / 1267650600228229401496703205376) \<le> q 13
      \<and> q 13 \<le> - (29 / 316912650057057350374175801344)"
    unfolding q_def by (rule horner_drop_step [OF b14 [unfolded q_def] t0])
      (simp_all add: sin_coeffs_def t_def)
  have b12: "40721 / 633825300114114700748351602688 \<le> q 12
      \<and> q 12 \<le> 81445 / 1267650600228229401496703205376"
    unfolding q_def by (rule horner_drop_step [OF b13 [unfolded q_def] t0])
      (simp_all add: sin_coeffs_def t_def)
  have b11: "- (48838259 / 1267650600228229401496703205376) \<le> q 11
      \<and> q 11 \<le> - (48838251 / 1267650600228229401496703205376)"
    unfolding q_def by (rule horner_drop_step [OF b12 [unfolded q_def] t0])
      (simp_all add: sin_coeffs_def t_def)
  have b10: "24693741107 / 1267650600228229401496703205376 \<le> q 10
      \<and> q 10 \<le> 24693741127 / 1267650600228229401496703205376"
    unfolding q_def by (rule horner_drop_step [OF b11 [unfolded q_def] t0])
      (simp_all add: sin_coeffs_def t_def)
  have b9: "- (10361275524659 / 1267650600228229401496703205376) \<le> q 9
      \<and> q 9 \<le> - (5180637762305 / 633825300114114700748351602688)"
    unfolding q_def by (rule horner_drop_step [OF b10 [unfolded q_def] t0])
      (simp_all add: sin_coeffs_def t_def)
  have b8: "3538930424368905 / 1267650600228229401496703205376 \<le> q 8
      \<and> q 8 \<le> 27647893940383 / 9903520314283042199192993792"
    unfolding q_def by (rule horner_drop_step [OF b9 [unfolded q_def] t0])
      (simp_all add: sin_coeffs_def t_def)
  have b7: "- (960849189817712933 / 1267650600228229401496703205376) \<le> q 7
      \<and> q 7 \<le> - (960849189817712645 / 1267650600228229401496703205376)"
    unfolding q_def by (rule horner_drop_step [OF b8 [unfolded q_def] t0])
      (simp_all add: sin_coeffs_def t_def)
  have b6: "50313200924916693115 / 316912650057057350374175801344 \<le> q 6
      \<and> q 6 \<le> 50313200924916693289 / 316912650057057350374175801344"
    unfolding q_def by (rule horner_drop_step [OF b7 [unfolded q_def] t0])
      (simp_all add: sin_coeffs_def t_def)
  have b5: "- (1954464937753101637383 / 79228162514264337593543950336) \<le> q 5
      \<and> q 5 \<le> - (15635719502024813098223 / 633825300114114700748351602688)"
    unfolding q_def by (rule horner_drop_step [OF b6 [unfolded q_def] t0])
      (simp_all add: sin_coeffs_def t_def)
  have b4: "3417807121136819476376837 / 1267650600228229401496703205376 \<le> q 4
      \<and> q 4 \<le> 3417807121136819476380899 / 1267650600228229401496703205376"
    unfolding q_def by (rule horner_drop_step [OF b5 [unfolded q_def] t0])
      (simp_all add: sin_coeffs_def t_def)
  have b3: "- (243266422519923719893154129 / 1267650600228229401496703205376) \<le> q 3
      \<and> q 3 \<le> - (121633211259961859946572161 / 633825300114114700748351602688)"
    unfolding q_def by (rule horner_drop_step [OF b4 [unfolded q_def] t0])
      (simp_all add: sin_coeffs_def t_def)
  have b2: "9976441007420339846133915513 / 1267650600228229401496703205376 \<le> q 2
      \<and> q 2 \<le> 9976441007420339846133939191 / 1267650600228229401496703205376"
    unfolding q_def by (rule horner_drop_step [OF b3 [unfolded q_def] t0])
      (simp_all add: sin_coeffs_def t_def)
  have b1: "- (93594573931150034386126209329 / 633825300114114700748351602688) \<le> q 1
      \<and> q 1 \<le> - (46797286965575017193063090373 / 316912650057057350374175801344)"
    unfolding q_def by (rule horner_drop_step [OF b2 [unfolded q_def] t0])
      (simp_all add: sin_coeffs_def t_def)
  have b0: "407861509024933541945932015953 / 633825300114114700748351602688 \<le> q 0
      \<and> q 0 \<le> 407861509024933541945932084961 / 633825300114114700748351602688"
    unfolding q_def by (rule horner_drop_step [OF b1 [unfolded q_def] t0])
      (simp_all add: sin_coeffs_def t_def)
  have b: "407861509024933541945932015953 / 633825300114114700748351602688 \<le> horner sin_coeffs t
      \<and> horner sin_coeffs t \<le> 407861509024933541945932084961 / 633825300114114700748351602688"
    using b0 by (simp add: q_def)
  have p: "1267467429127930838441606736885 / 1267650600228229401496703205376 \<le> x * horner sin_coeffs (x * x)
      \<and> x * horner sin_coeffs (x * x) \<le> 1267467429127930838441606951335 / 1267650600228229401496703205376"
    unfolding xx by (rule scale_step [OF b]) (simp_all add: x_def)
  have "\<bar>x\<bar> ^ 31 \<le> (8 / 5) ^ 31"
    by (intro power_mono) (simp_all add: x_def)
  then have "\<bar>x\<bar> ^ 31 / 8222838654177922817725562880000000 \<le> (8 / 5) ^ 31 / 8222838654177922817725562880000000"
    by (intro divide_right_mono) simp_all
  also have "\<dots> \<le> 41 / 158456325028528675187087900672"
    by (simp add: power_divide)
  finally have r: "\<bar>x\<bar> ^ 31 / 8222838654177922817725562880000000 \<le> 41 / 158456325028528675187087900672" .
  have "1267467429127930838441606736557 / 1267650600228229401496703205376 \<le> sin x
      \<and> sin x \<le> 1267467429127930838441606951663 / 1267650600228229401496703205376"
    by (rule enclosure [OF sin_series p r]) simp_all
  then show ?thesis
    by (simp only: x_def)
qed

lemma cos_delta:
  "10774511112156002909135864733 / 633825300114114700748351602688 \<le> cos (6997676558363143 / 4503599627370496 :: real)
   \<and> cos (6997676558363143 / 4503599627370496 :: real) \<le> 21549022224312005818271915231 / 1267650600228229401496703205376"
proof -
  define x :: real where "x = 6997676558363143 / 4503599627370496"
  define t :: real where "t = 48967477215465041880735460838449 / 20282409603651670423947251286016"
  define q where "q k = horner (drop k cos_coeffs) t" for k
  have t0: "0 \<le> t"
    by (simp add: t_def)
  have xx: "x * x = t"
    by (simp add: x_def t_def)
  have b14: "1 / 304888344611713860501504000000 \<le> q 14
      \<and> q 14 \<le> 1 / 304888344611713860501504000000"
    by (simp add: q_def cos_coeffs_def)
  have b13: "- (1567 / 633825300114114700748351602688) \<le> q 13
      \<and> q 13 \<le> - (3133 / 1267650600228229401496703205376)"
    unfolding q_def by (rule horner_drop_step [OF b14 [unfolded q_def] t0])
      (simp_all add: cos_coeffs_def t_def)
  have b12: "2035553 / 1267650600228229401496703205376 \<le> q 12
      \<and> q 12 \<le> 2035557 / 1267650600228229401496703205376"
    unfolding q_def by (rule horner_drop_step [OF b13 [unfolded q_def] t0])
      (simp_all add: cos_coeffs_def t_def)
  have b11: "- (561443947 / 633825300114114700748351602688) \<le> q 11
      \<and> q 11 \<le> - (280721971 / 316912650057057350374175801344)"
    unfolding q_def by (rule horner_drop_step [OF b12 [unfolded q_def] t0])
      (simp_all add: cos_coeffs_def t_def)
  have b10: "259166845525 / 633825300114114700748351602688 \<le> q 10
      \<and> q 10 \<le> 518333691075 / 1267650600228229401496703205376"
    unfolding q_def by (rule horner_drop_step [OF b11 [unfolded q_def] t0])
      (simp_all add: cos_coeffs_def t_def)
  have b9: "- (98372783328251 / 633825300114114700748351602688) \<le> q 9
      \<and> q 9 \<le> - (196745566656441 / 1267650600228229401496703205376)"
    unfolding q_def by (rule horner_drop_step [OF b10 [unfolded q_def] t0])
      (simp_all add: cos_coeffs_def t_def)
  have b8: "60112073609926319 / 1267650600228229401496703205376 \<le> q 8
      \<and> q 8 \<le> 15028018402481617 / 316912650057057350374175801344"
    unfolding q_def by (rule horner_drop_step [OF b9 [unfolded q_def] t0])
      (simp_all add: cos_coeffs_def t_def)
  have b7: "- (7197884991551856537 / 633825300114114700748351602688) \<le> q 7
      \<and> q 7 \<le> - (14395769983103712713 / 1267650600228229401496703205376)"
    unfolding q_def by (rule horner_drop_step [OF b8 [unfolded q_def] t0])
      (simp_all add: cos_coeffs_def t_def)
  have b6: "1305843944772326872189 / 633825300114114700748351602688 \<le> q 6
      \<and> q 6 \<le> 2611687889544653745251 / 1267650600228229401496703205376"
    unfolding q_def by (rule horner_drop_step [OF b7 [unfolded q_def] t0])
      (simp_all add: cos_coeffs_def t_def)
  have b5: "- (343025168810919357256079 / 1267650600228229401496703205376) \<le> q 5
      \<and> q 5 \<le> - (171512584405459678626985 / 633825300114114700748351602688)"
    unfolding q_def by (rule horner_drop_step [OF b6 [unfolded q_def] t0])
      (simp_all add: cos_coeffs_def t_def)
  have b4: "15305793593603339222869109 / 633825300114114700748351602688 \<le> q 4
      \<and> q 4 \<le> 30611587187206678445743311 / 1267650600228229401496703205376"
    unfolding q_def by (rule horner_drop_step [OF b5 [unfolded q_def] t0])
      (simp_all add: cos_coeffs_def t_def)
  have b3: "- (1686720798330999955671529035 / 1267650600228229401496703205376) \<le> q 3
      \<and> q 3 \<le> - (843360399165499977835758369 / 633825300114114700748351602688)"
    unfolding q_def by (rule horner_drop_step [OF b4 [unfolded q_def] t0])
      (simp_all add: cos_coeffs_def t_def)
  have b2: "6093319202239060655928190067 / 158456325028528675187087900672 \<le> q 2
      \<and> q 2 \<le> 24373276808956242623712775113 / 633825300114114700748351602688"
    unfolding q_def by (rule horner_drop_step [OF b3 [unfolded q_def] t0])
      (simp_all add: cos_coeffs_def t_def)
  have b1: "- (64517165397409093964330201811 / 158456325028528675187087900672) \<le> q 1
      \<and> q 1 \<le> - (516137323179272751714641542807 / 1267650600228229401496703205376)"
    unfolding q_def by (rule horner_drop_step [OF b2 [unfolded q_def] t0])
      (simp_all add: cos_coeffs_def t_def)
  have b0: "21549022224312005818271735819 / 1267650600228229401496703205376 \<le> q 0
      \<and> q 0 \<le> 10774511112156002909135954439 / 633825300114114700748351602688"
    unfolding q_def by (rule horner_drop_step [OF b1 [unfolded q_def] t0])
      (simp_all add: cos_coeffs_def t_def)
  have b: "21549022224312005818271735819 / 1267650600228229401496703205376 \<le> horner cos_coeffs t
      \<and> horner cos_coeffs t \<le> 10774511112156002909135954439 / 633825300114114700748351602688"
    using b0 by (simp add: q_def)
  have p: "21549022224312005818271735819 / 1267650600228229401496703205376 \<le> horner cos_coeffs (x * x)
      \<and> horner cos_coeffs (x * x) \<le> 10774511112156002909135954439 / 633825300114114700748351602688"
    unfolding xx by (rule b)
  have "\<bar>x\<bar> ^ 30 \<le> (8 / 5) ^ 30"
    by (intro power_mono) (simp_all add: x_def)
  then have "\<bar>x\<bar> ^ 30 / 265252859812191058636308480000000 \<le> (8 / 5) ^ 30 / 265252859812191058636308480000000"
    by (intro divide_right_mono) simp_all
  also have "\<dots> \<le> 6353 / 1267650600228229401496703205376"
    by (simp add: power_divide)
  finally have r: "\<bar>x\<bar> ^ 30 / 265252859812191058636308480000000 \<le> 6353 / 1267650600228229401496703205376" .
  have "10774511112156002909135864733 / 633825300114114700748351602688 \<le> cos x
      \<and> cos x \<le> 21549022224312005818271915231 / 1267650600228229401496703205376"
    by (rule enclosure [OF cos_series p r]) simp_all
  then show ?thesis
    by (simp only: x_def)
qed

section \<open>The double nearest to \<open>\<pi>\<close>\<close>

lemma half_pi_enclosure:
  "56593902016227521 / 36028797018963968 < pi / 2
   \<and> pi / 2 < 14148475504056881 / 9007199254740992"
proof
  define a :: real where "a = 56593902016227521 / 36028797018963968"
  have "(0 :: real) < 10609210065769 / 316912650057057350374175801344"
    by simp
  also have "\<dots> \<le> cos a"
    unfolding a_def using cos_below_half_pi by (rule conjunct1)
  finally have "0 < cos a" .
  have a: "0 \<le> a" "a \<le> 2"
    by (simp_all add: a_def)
  have "a < pi / 2"
  proof (rule ccontr)
    assume "\<not> a < pi / 2"
    then have "pi / 2 \<le> a"
      by simp
    moreover have "a \<le> pi"
      using a(2) pi_ge_two by linarith
    moreover have "0 \<le> pi / 2"
      by simp
    ultimately have "cos a \<le> cos (pi / 2)"
      by (intro cos_monotone_0_pi_le)
    with \<open>0 < cos a\<close> show False
      by simp
  qed
  then show "56593902016227521 / 36028797018963968 < pi / 2"
    by (simp only: a_def)
next
  define b :: real where "b = 14148475504056881 / 9007199254740992"
  have "cos b \<le> - (63116275819181 / 1267650600228229401496703205376)"
    unfolding b_def using cos_above_half_pi by (rule conjunct2)
  also have "\<dots> < (0 :: real)"
    by simp
  finally have "cos b < 0" .
  have b: "0 \<le> b"
    by (simp add: b_def)
  have "pi / 2 < b"
  proof (rule ccontr)
    assume "\<not> pi / 2 < b"
    then have "b \<le> pi / 2"
      by simp
    moreover have "- (pi / 2) \<le> b"
      using b pi_ge_two by linarith
    ultimately have "0 \<le> cos b"
      by (intro cos_ge_zero)
    with \<open>cos b < 0\<close> show False
      by simp
  qed
  then show "pi / 2 < 14148475504056881 / 9007199254740992"
    by (simp only: b_def)
qed

lemma pi_enclosure: "Math_PI + 1 / 2 ^ 54 < pi \<and> pi < Math_PI + 1 / 2 ^ 52"
  using half_pi_enclosure by (simp add: Math_PI_def)

lemma Math_PI_bounds: "3 < Math_PI" "Math_PI < pi" "Math_PI < 4"
  using pi_enclosure by (simp_all add: Math_PI_def)



lemma b64_two_pi: "binary64 (2 * pi) = Fin (2 * Math_PI)"
proof -
  have "binary64 (2 * pi) = Fin (of_int 7074237752028440 * (1 / 1125899906842624))"
  proof (rule binary64_eval [where e = 2])
    show "\<bar>2 * pi / (1 / 1125899906842624) - real_of_int 7074237752028440\<bar> < 1 / 2"
      using pi_enclosure by (simp add: Math_PI_def abs_less_iff)
    show "2 ^ 52 * (1 / 1125899906842624) \<le> \<bar>2 * pi\<bar>" "\<bar>2 * pi\<bar> < 2 ^ 53 * (1 / 1125899906842624)"
      using pi_ge_two pi_less_4 by simp_all
  qed (simp_all add: powr_neg_numeral)
  then show ?thesis
    by (simp add: Math_PI_def)
qed




lemma b64_two: "binary64 2 = Fin 2"
proof -
  have "binary64 2 = Fin (of_int 4503599627370496 * (1 / 2251799813685248))"
    by (rule binary64_eval [where e = 1]) (simp_all add: powr_neg_numeral)
  then show ?thesis
    by simp
qed

lemma b64_sixteen: "binary64 16 = Fin 16"
proof -
  have "binary64 16 = Fin (of_int 4503599627370496 * (1 / 281474976710656))"
    by (rule binary64_eval [where e = 4]) (simp_all add: powr_neg_numeral)
  then show ?thesis
    by simp
qed

section \<open>Double arithmetic on bounded numbers\<close>


lemma binary64_unit:
  assumes "\<bar>z\<bar> \<le> 1"
  shows "\<exists>s. binary64 z = Fin s \<and> \<bar>s\<bar> \<le> 1"
  using binary64_one assms by (rule binary64_abs_bound)

lemma binary64_unit_mult:
  assumes "\<bar>a\<bar> \<le> 1" "\<bar>b\<bar> \<le> 1"
  shows "\<exists>p. binary64 (a * b) = Fin p \<and> \<bar>p\<bar> \<le> 1"
proof -
  have "\<bar>a\<bar> * \<bar>b\<bar> \<le> 1"
    using assms by (intro mult_le_one) simp_all
  then have "\<bar>a * b\<bar> \<le> 1"
    by (simp only: abs_mult)
  then show ?thesis
    by (rule binary64_unit)
qed









section \<open>The bearing in double arithmetic\<close>

lemma arctan2_bound: "\<bar>arctan2 y x\<bar> \<le> pi"
proof -
  have "- (pi / 2) < arctan (y / x)" "arctan (y / x) < pi / 2"
    by (rule arctan_lbound, rule arctan_ubound)
  moreover have "x < 0 \<Longrightarrow> 0 \<le> y \<Longrightarrow> arctan (y / x) \<le> 0"
    by (simp add: divide_nonneg_neg)
  moreover have "x < 0 \<Longrightarrow> y < 0 \<Longrightarrow> 0 \<le> arctan (y / x)"
    by (simp add: divide_neg_neg order_less_imp_le)
  ultimately show ?thesis
    using pi_ge_zero by (auto simp: arctan2_def abs_le_iff)
qed

lemma zeroToTwoPi_binary64_range:
  "\<exists>b. zeroToTwoPi binary64 (Fin t) = Fin b \<and> 0 \<le> b \<and> b < 2 * pi"
proof -
  define T where "T = 2 * Math_PI"
  have T: "0 < T" "T \<le> 8" "T < 2 * pi"
    using Math_PI_bounds by (simp_all add: T_def)
  define m where "m = t - T * of_int (trunc (t / T))"
  have "- T < m \<and> m < T"
  proof (cases "0 \<le> t")
    case True
    have "0 \<le> m" "m < T"
      unfolding m_def by (rule trunc_rem_nonneg [OF T(1) True])+
    with T(1) show ?thesis
      by simp
  next
    case False
    then have "t < 0"
      by simp
    then have "- T < m" "m \<le> 0"
      unfolding m_def by (rule trunc_rem_neg [OF T(1)])+
    with T(1) show ?thesis
      by simp
  qed
  then have "0 \<le> m + T" "m + T \<le> 16"
    using T(2) by simp_all
  with b64_sixteen obtain y where y: "binary64 (m + T) = Fin y" "0 \<le> y"
    using binary64_upper by blast
  define b where "b = y - T * of_int (trunc (y / T))"
  have "0 \<le> b" "b < T"
    unfolding b_def by (rule trunc_rem_nonneg [OF T(1) y(2)])+
  then have "0 \<le> b" "b < 2 * pi"
    using T(3) by simp_all
  moreover have "zeroToTwoPi binary64 (Fin t) = Fin b"
    using T(1) y(1)
    by (simp add: zeroToTwoPi_def b64_two_pi T_def [symmetric] m_def [symmetric] b_def)
  ultimately show ?thesis
    by blast
qed

lemma bearing_binary64:
  assumes "js_sub binary64 (Fin lam2) (Fin lam1) = Fin dl"
  shows "\<exists>b. greatCircleInitialBearing binary64
          \<lparr>longitude = Fin lam1, latitude = Fin \<phi>1, height = h1\<rparr>
          \<lparr>longitude = Fin lam2, latitude = Fin \<phi>2, height = h2\<rparr> = Fin b
       \<and> 0 \<le> b \<and> b < 2 * pi"
proof -
  obtain c1 s1 c2 s2 cd sd where
    v: "binary64 (cos \<phi>1) = Fin c1" "binary64 (sin \<phi>1) = Fin s1"
       "binary64 (cos \<phi>2) = Fin c2" "binary64 (sin \<phi>2) = Fin s2"
       "binary64 (cos dl) = Fin cd" "binary64 (sin dl) = Fin sd"
    and b: "\<bar>c1\<bar> \<le> 1" "\<bar>s1\<bar> \<le> 1" "\<bar>c2\<bar> \<le> 1" "\<bar>s2\<bar> \<le> 1" "\<bar>cd\<bar> \<le> 1" "\<bar>sd\<bar> \<le> 1"
    using binary64_unit [of "cos \<phi>1"] binary64_unit [of "sin \<phi>1"]
      binary64_unit [of "cos \<phi>2"] binary64_unit [of "sin \<phi>2"]
      binary64_unit [of "cos dl"] binary64_unit [of "sin dl"]
    by auto
  obtain p where p: "binary64 (c1 * s2) = Fin p" "\<bar>p\<bar> \<le> 1"
    using binary64_unit_mult [OF b(1,4)] by blast
  obtain q' where q': "binary64 (s1 * c2) = Fin q'" "\<bar>q'\<bar> \<le> 1"
    using binary64_unit_mult [OF b(2,3)] by blast
  obtain q where q: "binary64 (q' * cd) = Fin q" "\<bar>q\<bar> \<le> 1"
    using binary64_unit_mult [OF q'(2) b(5)] by blast
  obtain y where y: "binary64 (sd * c2) = Fin y"
    using binary64_unit_mult [OF b(6,3)] by blast
  have "\<bar>p - q\<bar> \<le> 2"
    using p(2) q(2) by simp
  with b64_two obtain x where x: "binary64 (p - q) = Fin x"
    using binary64_abs_bound by blast
  have "\<bar>arctan2 y x\<bar> \<le> 16"
    using arctan2_bound [of y x] pi_less_4 by simp
  with b64_sixteen obtain t where t: "binary64 (arctan2 y x) = Fin t"
    using binary64_abs_bound by blast
  have "greatCircleInitialBearing binary64
          \<lparr>longitude = Fin lam1, latitude = Fin \<phi>1, height = h1\<rparr>
          \<lparr>longitude = Fin lam2, latitude = Fin \<phi>2, height = h2\<rparr>
        = zeroToTwoPi binary64 (Fin t)"
    unfolding greatCircleInitialBearing_def Let_def cartographic.simps assms
    by (simp add: v p(1) q'(1) q(1) y js_sub_def x t)
  then show ?thesis
    using zeroToTwoPi_binary64_range [of t] by simp
qed

section \<open>Overflow\<close>

lemma binary64_overflow: "binary64 (2 ^ 1023 + 2 ^ 1023) = PInf"
proof -
  define x :: real where "x = 2 ^ 1024"
  have eq: "(2 :: real) ^ 1023 + 2 ^ 1023 = x"
    by (simp add: x_def)
  have x0: "0 < x"
    by (simp add: x_def)
  have "log 2 x = real (1024 :: nat)"
    unfolding x_def by (rule log_pow_cancel) simp_all
  then have "\<lfloor>log 2 \<bar>x\<bar>\<rfloor> = 1024"
    using x0 by simp
  then have "max \<lfloor>log 2 \<bar>x\<bar>\<rfloor> (- 1022) - 52 = 972"
    by simp
  then have "ulp x = 2 powr of_int 972"
    by (simp only: ulp_def)
  then have u: "ulp x = 2 ^ 972"
    by simp
  have "x = 2 ^ 52 * 2 ^ 972"
    by (simp add: x_def)
  then have xu: "x = of_int (2 ^ 52) * ulp x"
    unfolding u by simp
  have "ulp x \<noteq> 0"
    using ulp_pos [of x] by simp
  then have "x / ulp x = of_int (2 ^ 52)"
    using xu by (metis nonzero_mult_div_cancel_right)
  then have "rhe (x / ulp x) = 2 ^ 52"
    by (simp only: rhe_of_int)
  then have y: "of_int (rhe (x / ulp x)) * ulp x = x"
    using xu by simp
  have "overflow_threshold \<le> \<bar>x\<bar>"
    by (simp add: overflow_threshold_def x_def)
  then have "binary64 x = PInf"
    using x0 by (simp add: binary64_def Let_def y)
  then show ?thesis
    by (simp only: eq)
qed

lemma longitudes_overflow:
  "js_sub binary64 (Fin (2 ^ 1023)) (Fin (- (2 ^ 1023))) = PInf"
  by (simp only: js_sub_def js_neg.simps js_add.simps minus_minus binary64_overflow)

section \<open>Small angles\<close>





section \<open>Travelling the distance 0, or backwards\<close>





section \<open>Double arithmetic at the counterexamples\<close>

lemma b64_sin_lat: "binary64 (sin (1224979098644775 / 72057594037927936)) = Fin (4899680385349787 / 288230376151711744)"
proof -
  have "binary64 (sin (1224979098644775 / 72057594037927936)) = Fin (of_int 4899680385349787 * (1 / 288230376151711744))"
    by (rule binary64_enclosed [where e = "- 6", OF _ _ _ sin_lat]) (simp_all add: powr_neg_numeral)
  then show ?thesis
    by simp
qed

lemma b64_cos_lat: "binary64 (cos (1224979098644775 / 72057594037927936)) = Fin (9005897745793809 / 9007199254740992)"
proof -
  have "binary64 (cos (1224979098644775 / 72057594037927936)) = Fin (of_int 9005897745793809 * (1 / 9007199254740992))"
    by (rule binary64_enclosed [where e = "- 1", OF _ _ _ cos_lat]) (simp_all add: powr_neg_numeral)
  then show ?thesis
    by simp
qed

lemma b64_sin_delta: "binary64 (sin (6997676558363143 / 4503599627370496)) = Fin (9005897745793809 / 9007199254740992)"
proof -
  have "binary64 (sin (6997676558363143 / 4503599627370496)) = Fin (of_int 9005897745793809 * (1 / 9007199254740992))"
    by (rule binary64_enclosed [where e = "- 1", OF _ _ _ sin_delta]) (simp_all add: powr_neg_numeral)
  then show ?thesis
    by simp
qed

lemma b64_cos_delta: "binary64 (cos (6997676558363143 / 4503599627370496)) = Fin (4899680385349713 / 288230376151711744)"
proof -
  have "binary64 (cos (6997676558363143 / 4503599627370496)) = Fin (of_int 4899680385349713 * (1 / 288230376151711744))"
    by (rule binary64_enclosed [where e = "- 6", OF _ _ _ cos_delta]) (simp_all add: powr_neg_numeral)
  then show ?thesis
    by simp
qed

lemma b64_sin_half_pi: "binary64 (sin (884279719003555 / 562949953421312)) = Fin 1"
  using sin_half_pi by (intro binary64_near_one) simp_all

lemma b64_lat: "binary64 (1224979098644775 / 72057594037927936) = Fin (1224979098644775 / 72057594037927936)"
proof -
  have "binary64 (1224979098644775 / 72057594037927936) = Fin (of_int 4899916394579100 * (1 / 288230376151711744))"
    by (rule binary64_eval [where e = "- 6"]) (simp_all add: powr_neg_numeral)
  then show ?thesis
    by simp
qed

lemma b64_2lat: "binary64 (1224979098644775 / 36028797018963968) = Fin (1224979098644775 / 36028797018963968)"
proof -
  have "binary64 (1224979098644775 / 36028797018963968) = Fin (of_int 4899916394579100 * (1 / 144115188075855872))"
    by (rule binary64_eval [where e = "- 5"]) (simp_all add: powr_neg_numeral)
  then show ?thesis
    by simp
qed

lemma b64_ss: "binary64 ((4899680385349787 / 288230376151711744) * (4899680385349787 / 288230376151711744)) = Fin (166581109174595 / 576460752303423488)"
proof -
  have "binary64 ((4899680385349787 / 288230376151711744) * (4899680385349787 / 288230376151711744)) = Fin (of_int 5330595493587040 * (1 / 18446744073709551616))"
    by (rule binary64_eval [where e = "- 12"]) (simp_all add: powr_neg_numeral)
  then show ?thesis
    by simp
qed

lemma b64_cc: "binary64 ((9005897745793809 / 9007199254740992) * (9005897745793809 / 9007199254740992)) = Fin (2251149106227535 / 2251799813685248)"
proof -
  have "binary64 ((9005897745793809 / 9007199254740992) * (9005897745793809 / 9007199254740992)) = Fin (of_int 9004596424910140 * (1 / 9007199254740992))"
    by (rule binary64_eval [where e = "- 1"]) (simp_all add: powr_neg_numeral)
  then show ?thesis
    by simp
qed

lemma b64_cc_id: "binary64 (2251149106227535 / 2251799813685248) = Fin (2251149106227535 / 2251799813685248)"
proof -
  have "binary64 (2251149106227535 / 2251799813685248) = Fin (of_int 9004596424910140 * (1 / 9007199254740992))"
    by (rule binary64_eval [where e = "- 1"]) (simp_all add: powr_neg_numeral)
  then show ?thesis
    by simp
qed

lemma b64_a: "binary64 (166581109174595 / 576460752303423488 + 2251149106227535 / 2251799813685248) = Fin (4503599627370497 / 4503599627370496)"
proof -
  have "binary64 (166581109174595 / 576460752303423488 + 2251149106227535 / 2251799813685248) = Fin (of_int 4503599627370497 * (1 / 4503599627370496))"
    by (rule binary64_eval [where e = "0"]) (simp_all add: powr_neg_numeral)
  then show ?thesis
    by simp
qed

lemma b64_eps: "binary64 (1 / 2 ^ 52) = Fin (1 / 4503599627370496)"
proof -
  have "binary64 (1 / 2 ^ 52) = Fin (of_int 4503599627370496 * (1 / 20282409603651670423947251286016))"
    by (rule binary64_eval [where e = "- 52"]) (simp_all add: powr_neg_numeral)
  then show ?thesis
    by simp
qed

lemma b64_pi_lit: "binary64 (884279719003555 / 281474976710656) = Fin (884279719003555 / 281474976710656)"
proof -
  have "binary64 (884279719003555 / 281474976710656) = Fin (of_int 7074237752028440 * (1 / 2251799813685248))"
    by (rule binary64_eval [where e = "1"]) (simp_all add: powr_neg_numeral)
  then show ?thesis
    by simp
qed

lemma b64_half_pi_lit: "binary64 (884279719003555 / 562949953421312) = Fin (884279719003555 / 562949953421312)"
proof -
  have "binary64 (884279719003555 / 562949953421312) = Fin (of_int 7074237752028440 * (1 / 4503599627370496))"
    by (rule binary64_eval [where e = "0"]) (simp_all add: powr_neg_numeral)
  then show ?thesis
    by simp
qed

lemma b64_quot: "binary64 ((2657306036551689 / 268435456) / 6371000) = Fin (6997676558363143 / 4503599627370496)"
proof -
  have "binary64 ((2657306036551689 / 268435456) / 6371000) = Fin (of_int 6997676558363143 * (1 / 4503599627370496))"
    by (rule binary64_eval [where e = "0"]) (simp_all add: powr_neg_numeral)
  then show ?thesis
    by simp
qed

lemma b64_t1: "binary64 ((4899680385349787 / 288230376151711744) * (4899680385349713 / 288230376151711744)) = Fin (5330595493586959 / 18446744073709551616)"
proof -
  have "binary64 ((4899680385349787 / 288230376151711744) * (4899680385349713 / 288230376151711744)) = Fin (of_int 5330595493586959 * (1 / 18446744073709551616))"
    by (rule binary64_eval [where e = "- 12"]) (simp_all add: powr_neg_numeral)
  then show ?thesis
    by simp
qed

lemma b64_sin_phi2: "binary64 (5330595493586959 / 18446744073709551616 + 2251149106227535 / 2251799813685248) = Fin (4503599627370497 / 4503599627370496)"
proof -
  have "binary64 (5330595493586959 / 18446744073709551616 + 2251149106227535 / 2251799813685248) = Fin (of_int 4503599627370497 * (1 / 4503599627370496))"
    by (rule binary64_eval [where e = "0"]) (simp_all add: powr_neg_numeral)
  then show ?thesis
    by simp
qed

section \<open>The distance\<close>

text \<open>
  C1, as amended: the distance applies no clamp to \<^verbatim>\<open>a\<close>. In exact arithmetic, for two
  points with finite latitudes and longitudes, \<^verbatim>\<open>a\<close> lies between 0 and 1, so that
  neither square root has a negative argument, and with a finite radius \<open>r\<close> the distance
  is the finite number \<open>r * 2 * atan2 (sqrt a, sqrt (1 - a))\<close>, never NaN.
\<close>

theorem distance_exact_never_nan:
  assumes "(case radius of None \<Rightarrow> MEAN_EARTH_RADIUS | Some x \<Rightarrow> x) = Fin r"
  shows "0 \<le> haversine \<phi>1 lam1 \<phi>2 lam2 \<and> haversine \<phi>1 lam1 \<phi>2 lam2 \<le> 1
    \<and> js_sqrt Fin (Fin (haversine \<phi>1 lam1 \<phi>2 lam2)) = Fin (sqrt (haversine \<phi>1 lam1 \<phi>2 lam2))
    \<and> js_sqrt Fin (js_sub Fin (Fin 1) (Fin (haversine \<phi>1 lam1 \<phi>2 lam2)))
        = Fin (sqrt (1 - haversine \<phi>1 lam1 \<phi>2 lam2))
    \<and> greatCircleGroundDistance Fin
         \<lparr>longitude = Fin lam1, latitude = Fin \<phi>1, height = h1\<rparr>
         \<lparr>longitude = Fin lam2, latitude = Fin \<phi>2, height = h2\<rparr> radius
        = Fin (r * (2 * arctan2 (sqrt (haversine \<phi>1 lam1 \<phi>2 lam2))
                                (sqrt (1 - haversine \<phi>1 lam1 \<phi>2 lam2))))"
  using haversine_bounds [of \<phi>1 lam1 \<phi>2 lam2] distance_exact [OF assms]
  by (simp add: js_sub_def not_less)

text \<open>
  At the default radius, from the point \<open>(0, 0)\<close> to the point of longitude \<open>\<pi>\<close> on the
  equator: the distance is \<open>6371000 * \<pi>\<close>.
\<close>

theorem distance_exact_never_nan_witness:
  "(case None of None \<Rightarrow> MEAN_EARTH_RADIUS | Some x \<Rightarrow> x) = Fin 6371000
   \<and> haversine 0 0 0 pi = 1
   \<and> greatCircleGroundDistance Fin
        \<lparr>longitude = Fin 0, latitude = Fin 0, height = Fin 0\<rparr>
        \<lparr>longitude = Fin pi, latitude = Fin 0, height = Fin 0\<rparr> None
      = Fin (6371000 * pi)"
proof -
  have r: "(case None of None \<Rightarrow> MEAN_EARTH_RADIUS | Some x \<Rightarrow> x) = Fin 6371000"
    by (simp add: MEAN_EARTH_RADIUS_def)
  have h: "haversine 0 0 0 pi = 1"
    by (simp add: haversine_def)
  show ?thesis
    using distance_exact_never_nan [OF r, of 0 0 0 pi "Fin 0" "Fin 0"] r
    by (simp add: h arctan2_def)
qed

text \<open>
  C1 fails in double arithmetic. Between the point of latitude 0.017 and longitude 0 and
  the point of latitude -0.017 and longitude 3.141592653589793 (\<^verbatim>\<open>Math.PI\<close>), nearly
  antipodal, the square of the sine of 0.017 rounds to 0.00028897216073942543 and the
  square of its cosine to 0.9997110278392607; their sum \<^verbatim>\<open>a\<close> rounds to
  1.0000000000000002: \<^verbatim>\<open>1 - a\<close> is negative, its square root is NaN, and so is the
  distance. The sine and the cosine of 0.017 are 0.01699918117849873 and
  0.9998555034800082 both correctly rounded and as the \<^verbatim>\<open>fdlibm\<close> algorithms of the usual
  engines compute them.
\<close>

theorem distance_nan_binary64:
  "greatCircleGroundDistance binary64
     \<lparr>longitude = Fin 0,
      latitude = Fin (1224979098644775 / 72057594037927936),
      height = Fin 0\<rparr>
     \<lparr>longitude = Fin (884279719003555 / 281474976710656),
      latitude = Fin (- (1224979098644775 / 72057594037927936)),
      height = Fin 0\<rparr>
     None = NaN"
  using b64_lat b64_2lat b64_sin_lat b64_cos_lat b64_ss b64_cc b64_pi_lit b64_half_pi_lit
    b64_sin_half_pi b64_cc_id b64_a b64_eps
  by (simp add: greatCircleGroundDistance_def Let_def js_sub_def binary64_odd)

text \<open>
  C7: the distance is symmetric under swapping its two points, for every radius, in exact
  arithmetic and in double arithmetic.
\<close>

theorem distance_symmetric:
  "greatCircleGroundDistance Fin p1 p2 radius = greatCircleGroundDistance Fin p2 p1 radius
   \<and> greatCircleGroundDistance binary64 p1 p2 radius
     = greatCircleGroundDistance binary64 p2 p1 radius"
  using distance_swap [OF odd_rounding_Fin] distance_swap [OF odd_rounding_binary64]
  by blast




text \<open>
  C10: the distance is linear in the radius: at the radius \<open>r\<close> it is \<open>r\<close> times the
  distance at the radius 1, in exact arithmetic and in double arithmetic.
\<close>

theorem radius_linear:
  "greatCircleGroundDistance Fin p1 p2 (Some r)
     = js_mul Fin r (greatCircleGroundDistance Fin p1 p2 (Some (Fin 1)))
   \<and> greatCircleGroundDistance binary64 p1 p2 (Some r)
     = js_mul binary64 r (greatCircleGroundDistance binary64 p1 p2 (Some (Fin 1)))"
  using linear_in_radius_rounded [OF idempotent_rounding_Fin]
    linear_in_radius_rounded [OF idempotent_rounding_binary64]
  by blast

section \<open>The initial bearing\<close>

text \<open>
  C3, as amended: for two points with finite latitudes and longitudes, the initial bearing
  is a number in \<open>[0, 2\<pi>)\<close>, in double arithmetic when the difference of the two longitudes
  does not overflow, and in exact arithmetic always.
\<close>

theorem bearing_range:
  assumes "js_sub binary64 (Fin mu) (Fin lam) = Fin dl"
  shows "(\<exists>b. greatCircleInitialBearing binary64
            \<lparr>longitude = Fin lam, latitude = Fin \<phi>, height = h\<rparr>
            \<lparr>longitude = Fin mu, latitude = Fin \<psi>, height = k\<rparr> = Fin b
          \<and> 0 \<le> b \<and> b < 2 * pi)
       \<and> (\<exists>b. greatCircleInitialBearing Fin
            \<lparr>longitude = Fin lam, latitude = Fin \<phi>, height = h\<rparr>
            \<lparr>longitude = Fin mu, latitude = Fin \<psi>, height = k\<rparr> = Fin b
          \<and> 0 \<le> b \<and> b < 2 * pi)"
  using bearing_binary64 [OF assms] bearing_exact by blast

text \<open>From the point \<open>(0, 0)\<close> to the point of latitude 1 and longitude 1.\<close>

theorem bearing_range_witness:
  "js_sub binary64 (Fin 1) (Fin 0) = Fin 1
   \<and> (\<exists>b. greatCircleInitialBearing binary64
          \<lparr>longitude = Fin 0, latitude = Fin 0, height = Fin 0\<rparr>
          \<lparr>longitude = Fin 1, latitude = Fin 1, height = Fin 0\<rparr> = Fin b
        \<and> 0 \<le> b \<and> b < 2 * pi)
   \<and> (\<exists>b. greatCircleInitialBearing Fin
          \<lparr>longitude = Fin 0, latitude = Fin 0, height = Fin 0\<rparr>
          \<lparr>longitude = Fin 1, latitude = Fin 1, height = Fin 0\<rparr> = Fin b
        \<and> 0 \<le> b \<and> b < 2 * pi)"
proof -
  have d: "js_sub binary64 (Fin 1) (Fin 0) = Fin 1"
    by (simp add: js_sub_def binary64_one)
  show ?thesis
    using bearing_range [OF d, where \<phi> = 0 and h = "Fin 0" and \<psi> = 1 and k = "Fin 0"] d
    by blast
qed

text \<open>
  C3 fails in double arithmetic when the difference of the longitudes overflows: between
  the longitudes \<open>-2 ^ 1023\<close> and \<open>2 ^ 1023\<close>, both doubles, the difference is \<open>+\<infinity>\<close>, its
  sine and cosine are NaN, and so is the bearing.
\<close>

theorem bearing_range_counterexample:
  "greatCircleInitialBearing binary64
     \<lparr>longitude = Fin (- (2 ^ 1023)), latitude = Fin 0, height = Fin 0\<rparr>
     \<lparr>longitude = Fin (2 ^ 1023), latitude = Fin 0, height = Fin 0\<rparr> = NaN"
  unfolding greatCircleInitialBearing_def Let_def cartographic.simps longitudes_overflow
  by (simp add: zeroToTwoPi_def js_sub_def)

section \<open>The destination\<close>

text \<open>
  C2, as amended: the destination applies no clamp to \<^verbatim>\<open>sin\<phi>2\<close>. In exact arithmetic,
  for a point with finite latitude and longitude, a finite distance and bearing and a
  positive radius, \<^verbatim>\<open>sin\<phi>2\<close> lies between -1 and 1, and the latitude of the destination
  is its arc sine, a number between \<open>-\<pi>/2\<close> and \<open>\<pi>/2\<close>, never NaN.
\<close>

theorem destination_latitude_exact:
  assumes "(case radius of None \<Rightarrow> MEAN_EARTH_RADIUS | Some x \<Rightarrow> x) = Fin r" "0 < r"
  shows "\<bar>sin \<phi> * cos (d / r) + cos \<phi> * sin (d / r) * cos \<theta>\<bar> \<le> 1
    \<and> latitude (greatCircleDestination Fin
         \<lparr>longitude = Fin lam, latitude = Fin \<phi>, height = h\<rparr> (Fin d) (Fin \<theta>) radius)
        = Fin (arcsin (sin \<phi> * cos (d / r) + cos \<phi> * sin (d / r) * cos \<theta>))
    \<and> - (pi / 2) \<le> arcsin (sin \<phi> * cos (d / r) + cos \<phi> * sin (d / r) * cos \<theta>)
    \<and> arcsin (sin \<phi> * cos (d / r) + cos \<phi> * sin (d / r) * cos \<theta>) \<le> pi / 2"
proof -
  define s where "s = sin \<phi> * cos (d / r) + cos \<phi> * sin (d / r) * cos \<theta>"
  have s: "\<bar>s\<bar> \<le> 1"
    unfolding s_def by (rule sin_phi2_bound)
  then have n: "\<not> s < - 1" "\<not> 1 < s"
    by (simp_all add: abs_le_iff not_less)
  have "latitude (greatCircleDestination Fin
         \<lparr>longitude = Fin lam, latitude = Fin \<phi>, height = h\<rparr> (Fin d) (Fin \<theta>) radius)
        = js_asin Fin (Fin s)"
    using assms(2) unfolding greatCircleDestination_def Let_def assms(1) s_def by simp
  then have "latitude (greatCircleDestination Fin
         \<lparr>longitude = Fin lam, latitude = Fin \<phi>, height = h\<rparr> (Fin d) (Fin \<theta>) radius)
        = Fin (arcsin s)"
    using n by simp
  moreover have "- 1 \<le> s" "s \<le> 1"
    using s by (simp_all add: abs_le_iff)
  then have "- (pi / 2) \<le> arcsin s \<and> arcsin s \<le> pi / 2"
    by (rule arcsin_bounded)
  ultimately show ?thesis
    using s unfolding s_def by simp
qed

text \<open>
  At the default radius, a quarter of the way round the sphere to the north from the
  point \<open>(0, 0)\<close>: the latitude of the destination is \<open>\<pi>/2\<close>.
\<close>

theorem destination_latitude_exact_witness:
  "(case None of None \<Rightarrow> MEAN_EARTH_RADIUS | Some x \<Rightarrow> x) = Fin 6371000 \<and> (0 :: real) < 6371000
   \<and> latitude (greatCircleDestination Fin
        \<lparr>longitude = Fin 0, latitude = Fin 0, height = Fin 0\<rparr>
        (Fin (6371000 * (pi / 2))) (Fin 0) None) = Fin (pi / 2)"
proof -
  have r: "(case None of None \<Rightarrow> MEAN_EARTH_RADIUS | Some x \<Rightarrow> x) = Fin 6371000"
    by (simp add: MEAN_EARTH_RADIUS_def)
  have p: "(0 :: real) < 6371000"
    by simp
  show ?thesis
    using destination_latitude_exact [OF r p, of 0 "6371000 * (pi / 2)" 0 0 "Fin 0"] r
    by simp
qed

text \<open>
  C2 fails in double arithmetic. From the point of latitude 0.017 and longitude 0,
  travelling 9899236.398010287 metres to the north at the default radius: the angular
  distance rounds to 1.5537963267948969, the product of the sines rounds to
  0.00028897216073942104 and the product of the cosines to 0.9997110278392607; their sum
  \<^verbatim>\<open>sin\<phi>2\<close> is 1.0000000000000002: its arc sine, the latitude of the destination, is NaN.
  The sines and cosines are the same correctly rounded and as the \<^verbatim>\<open>fdlibm\<close> algorithms
  compute them.
\<close>

theorem destination_nan_binary64:
  "latitude (greatCircleDestination binary64
     \<lparr>longitude = Fin 0,
      latitude = Fin (1224979098644775 / 72057594037927936),
      height = Fin 0\<rparr>
     (Fin (2657306036551689 / 268435456)) (Fin 0) None) = NaN"
  using b64_quot b64_lat b64_sin_lat b64_cos_lat b64_sin_delta b64_cos_delta b64_t1 b64_cc
    binary64_one b64_cc_id b64_sin_phi2
  by (simp add: greatCircleDestination_def Let_def js_sub_def MEAN_EARTH_RADIUS_def
      binary64_odd)









text \<open>
  C6: the longitude of the destination is the longitude of the point plus
  \<^verbatim>\<open>atan2(y, x)\<close>, with no normalisation, whatever the rounding; it can lie outside
  \<open>(-\<pi>, \<pi>]\<close>: from the longitude \<open>\<pi>\<close> on the equator, travelling half a radius to the
  east gives the longitude \<open>\<pi> + 1/2\<close>.
\<close>

theorem longitude_verbatim:
  "longitude (greatCircleDestination rnd carto distance \<theta> radius)
   = (let \<delta> = js_div rnd distance (case radius of None \<Rightarrow> MEAN_EARTH_RADIUS | Some r \<Rightarrow> r);
          \<phi>1 = latitude carto;
          sin\<phi>2 = js_add rnd (js_mul rnd (js_sin rnd \<phi>1) (js_cos rnd \<delta>))
                    (js_mul rnd (js_mul rnd (js_cos rnd \<phi>1) (js_sin rnd \<delta>)) (js_cos rnd \<theta>));
          y = js_mul rnd (js_mul rnd (js_sin rnd \<theta>) (js_sin rnd \<delta>)) (js_cos rnd \<phi>1);
          x = js_sub rnd (js_cos rnd \<delta>) (js_mul rnd (js_sin rnd \<phi>1) sin\<phi>2)
      in js_add rnd (longitude carto) (js_atan2 rnd y x))
   \<and> longitude (greatCircleDestination Fin
        \<lparr>longitude = Fin pi, latitude = Fin 0, height = Fin 0\<rparr>
        (Fin (1 / 2)) (Fin (pi / 2)) (Some (Fin 1))) = Fin (pi + 1 / 2)
   \<and> pi < pi + 1 / 2"
proof -
  have h: "(1 / 2 :: real) < pi / 2"
    using pi_ge_two by simp
  then have c: "0 < cos (1 / 2 :: real)"
    by (intro cos_gt_zero) simp_all
  have "arctan (tan (1 / 2)) = 1 / 2"
    using h by (intro arctan_tan) simp_all
  then have "arctan2 (sin (1 / 2)) (cos (1 / 2)) = 1 / 2"
    using c by (simp add: arctan2_def tan_def)
  then show ?thesis
    by (simp add: greatCircleDestination_def Let_def js_sub_def)
qed

section \<open>The height\<close>

text \<open>
  C9: none of the three operations reads the height of an input point: changing the
  heights changes no output, whatever the rounding; and the destination has the height 0.
\<close>

theorem height_never_read:
  "greatCircleGroundDistance rnd (p1\<lparr>height := h1\<rparr>) (p2\<lparr>height := h2\<rparr>) radius
     = greatCircleGroundDistance rnd p1 p2 radius
   \<and> greatCircleInitialBearing rnd (p1\<lparr>height := h1\<rparr>) (p2\<lparr>height := h2\<rparr>)
     = greatCircleInitialBearing rnd p1 p2
   \<and> greatCircleDestination rnd (p1\<lparr>height := h1\<rparr>) distance bearing radius
     = greatCircleDestination rnd p1 distance bearing radius
   \<and> height (greatCircleDestination rnd p1 distance bearing radius) = Fin 0"
  by (simp add: greatCircleGroundDistance_def greatCircleInitialBearing_def
      greatCircleDestination_def Let_def)

end
